theory Spec2Isabelle
  imports Main "HOL-Library.Char_ord" "HOL-Library.AList"
begin

section \<open>Python values shared by the models\<close>

text \<open>
  Exceptions of the modelled Python code are values: a function that can raise returns
  \<open>py_error + 'a\<close>, with \<open>Inl\<close> for the raised exception.
\<close>

datatype py_error = KeyError | AssertionError string | ValidationError

text \<open>\<open>d[k]\<close> on a dict given as an association list: a missing key raises KeyError.\<close>

definition getitem :: "('k \<times> 'v) list \<Rightarrow> 'k \<Rightarrow> py_error + 'v" where
  "getitem d k = (case map_of d k of None \<Rightarrow> Inl KeyError | Some v \<Rightarrow> Inr v)"

text \<open>Decimal rendering of a natural number, as \<open>str(i)\<close> and \<open>f"{i}"\<close> give it.\<close>

definition digit_char :: "nat \<Rightarrow> char" where
  "digit_char d = char_of (of_char CHR ''0'' + d)"

fun str_nat :: "nat \<Rightarrow> string" where
  "str_nat n = (if n < 10 then [digit_char n] else str_nat (n div 10) @ [digit_char (n mod 10)])"

declare str_nat.simps [simp del]


section \<open>wake/compiler/solc\_frontend/input\_data\_model.py: field naming\<close>

text \<open>
  \<open>str.lower\<close>, \<open>str.capitalize\<close> and \<open>str.split\<close> on ASCII strings (the field names
  of the model are ASCII identifiers). \<open>split\<close> cuts at every separator and keeps empty
  pieces, so it never returns an empty list.
\<close>

definition lower_char :: "char \<Rightarrow> char" where
  "lower_char c =
     (if CHR ''A'' \<le> c \<and> c \<le> CHR ''Z'' then char_of (of_char c + (32::nat)) else c)"

definition upper_char :: "char \<Rightarrow> char" where
  "upper_char c =
     (if CHR ''a'' \<le> c \<and> c \<le> CHR ''z'' then char_of (of_char c - (32::nat)) else c)"

definition lower :: "string \<Rightarrow> string" where
  "lower w = map lower_char w"

definition capitalize :: "string \<Rightarrow> string" where
  "capitalize w = (case w of [] \<Rightarrow> [] | c # cs \<Rightarrow> upper_char c # map lower_char cs)"

fun split_on :: "char \<Rightarrow> string \<Rightarrow> string list" where
  "split_on sep [] = [[]]"
| "split_on sep (c # cs) =
     (if c = sep then [] # split_on sep cs
      else (case split_on sep cs of [] \<Rightarrow> [[c]] | w # ws \<Rightarrow> (c # w) # ws))"

text \<open>
  \<^verbatim>\<open>def _to_camel(s): split = s.split("_");\<close>
  \<^verbatim>\<open>return split[0].lower() + "".join([w.capitalize() for w in split[1:]])\<close>
  (a name cannot start with an underscore here, so \<open>_to_camel\<close> is \<open>to_camel\<close>).
\<close>

definition to_camel :: "string \<Rightarrow> string" where
  "to_camel s =
     (case split_on CHR ''_'' s of
        [] \<Rightarrow> []
      | w0 # ws \<Rightarrow> lower w0 @ concat (map capitalize ws))"

text \<open>
  The configuration every model class inherits from \<open>SolcInputModel\<close>:
  \<^verbatim>\<open>ConfigDict(alias_generator=_to_camel, populate_by_name=True, extra="allow", ...)\<close>.
\<close>

datatype extra_mode = ExtraAllow | ExtraIgnore | ExtraForbid

record model_config =
  alias_generator :: "string \<Rightarrow> string"
  populate_by_name :: bool
  extra :: extra_mode

definition SolcInputModel_config :: model_config where
  "SolcInputModel_config =
     \<lparr>alias_generator = to_camel, populate_by_name = True, extra = ExtraAllow\<rparr>"

text \<open>
  A declared field: its Python name, the alias given with \<open>Field(..., alias=...)\<close> if
  any, and whether its value is a plain value, a nested model (\<open>Optional[C]\<close>) or a
  dict of nested models (\<open>Dict[str, C]\<close>).
\<close>

datatype field_kind = Plain | Sub string | SubDict string

record field_decl =
  fname :: string
  explicit_alias :: "string option"
  fkind :: field_kind

definition fld :: "string \<Rightarrow> field_decl" where
  "fld n = \<lparr>fname = n, explicit_alias = None, fkind = Plain\<rparr>"

definition fld_alias :: "string \<Rightarrow> string \<Rightarrow> field_decl" where
  "fld_alias n a = \<lparr>fname = n, explicit_alias = Some a, fkind = Plain\<rparr>"

definition fld_sub :: "string \<Rightarrow> string \<Rightarrow> field_decl" where
  "fld_sub n c = \<lparr>fname = n, explicit_alias = None, fkind = Sub c\<rparr>"

definition fld_subdict :: "string \<Rightarrow> string \<Rightarrow> field_decl" where
  "fld_subdict n c = \<lparr>fname = n, explicit_alias = None, fkind = SubDict c\<rparr>"

text \<open>The classes of the request model with their fields, in declaration order.\<close>

definition SolcInputSource_fields :: "field_decl list" where
  "SolcInputSource_fields = [fld ''keccak256'', fld ''content'', fld ''urls'']"

definition SolcInputOptimizerYulDetailsSettings_fields :: "field_decl list" where
  "SolcInputOptimizerYulDetailsSettings_fields =
     [fld ''stack_allocation'', fld ''optimizer_steps'']"

definition SolcInputOptimizerDetailsSettings_fields :: "field_decl list" where
  "SolcInputOptimizerDetailsSettings_fields =
     [fld ''peephole'', fld ''inliner'', fld ''jumpdest_remover'', fld ''order_literals'',
      fld ''deduplicate'', fld ''cse'', fld ''constant_optimizer'',
      fld ''simple_counter_for_loop_unchecked_increment'', fld ''yul'',
      fld_sub ''yul_details'' ''SolcInputOptimizerYulDetailsSettings'']"

definition SolcInputOptimizerSettings_fields :: "field_decl list" where
  "SolcInputOptimizerSettings_fields =
     [fld ''enabled'', fld ''runs'',
      fld_sub ''details'' ''SolcInputOptimizerDetailsSettings'']"

definition SolcInputDebugSettings_fields :: "field_decl list" where
  "SolcInputDebugSettings_fields = [fld ''revert_strings'', fld ''debug_info'']"

definition SolcInputMetadataSettings_fields :: "field_decl list" where
  "SolcInputMetadataSettings_fields =
     [fld_alias ''append_CBOR'' ''appendCBOR'', fld ''use_literal_content'',
      fld ''bytecode_hash'']"

definition SolcInputModelCheckerSettings_fields :: "field_decl list" where
  "SolcInputModelCheckerSettings_fields =
     [fld ''contracts'', fld ''div_mod_with_slacks'', fld ''engine'', fld ''invariants'',
      fld ''show_unproved'', fld ''solvers'', fld ''targets'', fld ''timeout'']"

definition SolcInputSettings_fields :: "field_decl list" where
  "SolcInputSettings_fields =
     [fld ''stop_after'', fld ''remappings'',
      fld_sub ''optimizer'' ''SolcInputOptimizerSettings'',
      fld ''evm_version'', fld_alias ''via_IR'' ''viaIR'',
      fld_sub ''debug'' ''SolcInputDebugSettings'',
      fld_sub ''metadata'' ''SolcInputMetadataSettings'',
      fld ''libraries'', fld ''output_selection'',
      fld_sub ''model_checker'' ''SolcInputModelCheckerSettings'']"

definition SolcInput_fields :: "field_decl list" where
  "SolcInput_fields =
     [fld ''language'', fld_subdict ''sources'' ''SolcInputSource'',
      fld_sub ''settings'' ''SolcInputSettings'']"

definition solc_input_classes :: "(string \<times> field_decl list) list" where
  "solc_input_classes =
     [(''SolcInputSource'', SolcInputSource_fields),
      (''SolcInputOptimizerYulDetailsSettings'', SolcInputOptimizerYulDetailsSettings_fields),
      (''SolcInputOptimizerDetailsSettings'', SolcInputOptimizerDetailsSettings_fields),
      (''SolcInputOptimizerSettings'', SolcInputOptimizerSettings_fields),
      (''SolcInputDebugSettings'', SolcInputDebugSettings_fields),
      (''SolcInputMetadataSettings'', SolcInputMetadataSettings_fields),
      (''SolcInputModelCheckerSettings'', SolcInputModelCheckerSettings_fields),
      (''SolcInputSettings'', SolcInputSettings_fields),
      (''SolcInput'', SolcInput_fields)]"

definition solc_input_all_fields :: "field_decl list" where
  "solc_input_all_fields = concat (map snd solc_input_classes)"

text \<open>
  The external name of a field: the explicit alias when the declaration gives one,
  otherwise the configuration's alias generator applied to the Python name.
\<close>

definition wire_name :: "model_config \<Rightarrow> field_decl \<Rightarrow> string" where
  "wire_name cfg f =
     (case explicit_alias f of Some a \<Rightarrow> a | None \<Rightarrow> alias_generator cfg (fname f))"

text \<open>The naming rule as the specification words it, to compare with \<open>wire_name\<close>.\<close>

definition spec_wire_name :: "string \<Rightarrow> string" where
  "spec_wire_name n =
     (if n = ''via_IR'' then ''viaIR''
      else if n = ''append_CBOR'' then ''appendCBOR''
      else to_camel n)"


section \<open>woke/detectors/utils.py: the SARIF log\<close>

text \<open>
  \<open>DetectionImpact\<close> is imported from \<open>woke.detectors.api\<close>; its members are the keys
  of the \<open>impact_to_level\<close> dict literal.
\<close>

datatype DetectionImpact = HIGH | MEDIUM | LOW | WARNING | INFO

definition impact_to_level :: "(DetectionImpact \<times> string) list" where
  "impact_to_level =
     [(HIGH, ''error''), (MEDIUM, ''error''), (LOW, ''error''),
      (WARNING, ''warning''), (INFO, ''note'')]"

text \<open>
  A detection carries a message and its sub-detections; a detector result pairs a
  detection with an impact. The IR node of a detection feeds only the physical locations
  of the log, which are left out of this model (they need the line/column lookup and the
  path handling, neither of which is part of this file).
\<close>

datatype Detection = Detection (message: string) (subdetections: "Detection list")

record DetectorResult =
  detection :: Detection
  impact :: DetectionImpact

text \<open>
  \<open>run_detect.loaded_from_plugins\<close> maps a detector name to where it was loaded from: a
  module name (a \<open>str\<close>) or a local path. \<open>packages_distributions()\<close> maps a module name
  to the distributions that provide it.
\<close>

datatype plugin_source = FromModule string | FromPath string

record sarif_env =
  loaded_from_plugins :: "(string \<times> plugin_source) list"
  distributions :: "(string \<times> string list) list"

text \<open>
  \<^verbatim>\<open>isinstance(source, str) and source in distributions and len(distributions[source]) == 1\<close>,
  then \<^verbatim>\<open>package_name = distributions[source][0]\<close>. The first loop writes the middle
  test as \<^verbatim>\<open>source in source in distributions\<close>, a chained comparison whose first half
  (a string is contained in itself) always holds, so both loops decide alike.
\<close>

definition plugin_package :: "sarif_env \<Rightarrow> plugin_source \<Rightarrow> string option" where
  "plugin_package env source =
     (case source of
        FromPath _ \<Rightarrow> None
      | FromModule m \<Rightarrow>
          (case map_of (distributions env) m of
             Some [p] \<Rightarrow> Some p
           | _ \<Rightarrow> None))"

record sarif_tools =
  driver_rules :: "string list"
  extensions :: "(string \<times> string list) list"
  detector_index_mapping :: "(string \<times> nat) list"

definition empty_tools :: sarif_tools where
  "empty_tools = \<lparr>driver_rules = [], extensions = [], detector_index_mapping = []\<rparr>"

text \<open>
  The loop over \<open>detectors\<close>. \<open>extensions\<close> is a keyed default dict: reading a package
  that is not there yet creates its component with no rules.
\<close>

fun register_detectors :: "sarif_env \<Rightarrow> string list \<Rightarrow> sarif_tools \<Rightarrow> py_error + sarif_tools" where
  "register_detectors env [] st = Inr st"
| "register_detectors env (name # rest) st =
     (case getitem (loaded_from_plugins env) name of
        Inl e \<Rightarrow> Inl e
      | Inr source \<Rightarrow>
          (case plugin_package env source of
             Some package_name \<Rightarrow>
               (let rules = (case map_of (extensions st) package_name of
                               None \<Rightarrow> [] | Some r \<Rightarrow> r)
                in register_detectors env rest
                     (st\<lparr>detector_index_mapping :=
                           AList.update name (length rules) (detector_index_mapping st),
                         extensions :=
                           AList.update package_name (rules @ [name]) (extensions st)\<rparr>))
           | None \<Rightarrow>
               register_detectors env rest
                 (st\<lparr>detector_index_mapping :=
                       AList.update name (length (driver_rules st)) (detector_index_mapping st),
                     driver_rules := driver_rules st @ [name]\<rparr>)))"

text \<open>
  \<^verbatim>\<open>extensions_index_mapping = {e.name: i for i, e in enumerate(extensions_list)}\<close>
\<close>

definition extensions_index_mapping :: "sarif_tools \<Rightarrow> (string \<times> nat) list" where
  "extensions_index_mapping st =
     map (\<lambda>(i, e). (fst e, i)) (enumerate 0 (extensions st))"

record sarif_result =
  rule_id :: string
  rule_index :: nat
  tool_component :: "(string \<times> nat) option"
  level :: string
  message_text :: string
  related_count :: nat

text \<open>
  The links appended to the message:
  \<^verbatim>\<open>"".join(f"[{i}]({i})" for i in range(len(related_locations)))\<close>
\<close>

definition related_links :: "nat \<Rightarrow> string" where
  "related_links n =
     concat (map (\<lambda>i. ''['' @ str_nat i @ '']('' @ str_nat i @ '')'') [0..<n])"

text \<open>The body of the inner loop: one detector result becomes one SARIF result.\<close>

definition make_result ::
  "sarif_env \<Rightarrow> sarif_tools \<Rightarrow> string \<Rightarrow> DetectorResult \<Rightarrow> py_error + sarif_result" where
  "make_result env st detector_name result =
     (case getitem (detector_index_mapping st) detector_name of
        Inl e \<Rightarrow> Inl e
      | Inr idx \<Rightarrow>
     (case getitem (loaded_from_plugins env) detector_name of
        Inl e \<Rightarrow> Inl e
      | Inr source \<Rightarrow>
     (case (case plugin_package env source of
              None \<Rightarrow> Inr None
            | Some package_name \<Rightarrow>
                (case getitem (extensions_index_mapping st) package_name of
                   Inl e \<Rightarrow> Inl e
                 | Inr i \<Rightarrow> Inr (Some (package_name, i)))) of
        Inl e \<Rightarrow> Inl e
      | Inr component \<Rightarrow>
     (case getitem impact_to_level (impact result) of
        Inl e \<Rightarrow> Inl e
      | Inr lvl \<Rightarrow>
          (let n = length (subdetections (detection result))
           in Inr \<lparr>rule_id = detector_name, rule_index = idx, tool_component = component,
                   level = lvl,
                   message_text = message (detection result) @ [CHR 0x0A] @ related_links n,
                   related_count = n\<rparr>)))))"

fun results_of_detector ::
  "sarif_env \<Rightarrow> sarif_tools \<Rightarrow> string \<Rightarrow> DetectorResult list \<Rightarrow> py_error + sarif_result list" where
  "results_of_detector env st detector_name [] = Inr []"
| "results_of_detector env st detector_name (result # rest) =
     (case make_result env st detector_name result of
        Inl e \<Rightarrow> Inl e
      | Inr x \<Rightarrow>
          (case results_of_detector env st detector_name rest of
             Inl e \<Rightarrow> Inl e
           | Inr xs \<Rightarrow> Inr (x # xs)))"

fun collect_results ::
  "sarif_env \<Rightarrow> sarif_tools \<Rightarrow> (string \<times> DetectorResult list) list \<Rightarrow> py_error + sarif_result list" where
  "collect_results env st [] = Inr []"
| "collect_results env st ((detector_name, r) # rest) =
     (case results_of_detector env st detector_name r of
        Inl e \<Rightarrow> Inl e
      | Inr xs \<Rightarrow>
          (case collect_results env st rest of
             Inl e \<Rightarrow> Inl e
           | Inr ys \<Rightarrow> Inr (xs @ ys)))"

record SarifLog =
  log_driver_rules :: "string list"
  log_extensions :: "(string \<times> string list) list"
  log_results :: "sarif_result list"

definition create_sarif_log ::
  "sarif_env \<Rightarrow> string list \<Rightarrow> (string \<times> DetectorResult list) list \<Rightarrow> py_error + SarifLog" where
  "create_sarif_log env detectors detections =
     (case register_detectors env detectors empty_tools of
        Inl e \<Rightarrow> Inl e
      | Inr st \<Rightarrow>
          (case collect_results env st detections of
             Inl e \<Rightarrow> Inl e
           | Inr rs \<Rightarrow>
               Inr \<lparr>log_driver_rules = driver_rules st, log_extensions = extensions st,
                    log_results = rs\<rparr>))"

text \<open>The level the specification assigns to an impact.\<close>

fun spec_level :: "DetectionImpact \<Rightarrow> string" where
  "spec_level HIGH = ''error''"
| "spec_level MEDIUM = ''error''"
| "spec_level LOW = ''error''"
| "spec_level WARNING = ''warning''"
| "spec_level INFO = ''note''"


section \<open>wake/compiler/solc\_frontend/input\_data\_model.py: validation and round trip\<close>

text \<open>JSON documents and Python values of the request: \<open>None\<close> is \<open>JNull\<close>, a dict is an
  object with its items in order.\<close>

datatype json =
  JNull | JBool bool | JInt int | JStr string | JList "json list"
  | JObj "(string \<times> json) list"

type_synonym py_dict = "(string \<times> json) list"

text \<open>\<open>values.get(k)\<close>: \<open>None\<close> when the key is missing.\<close>

definition dict_get :: "py_dict \<Rightarrow> string \<Rightarrow> json" where
  "dict_get values k = (case map_of values k of None \<Rightarrow> JNull | Some v \<Rightarrow> v)"

text \<open>
  \<^verbatim>\<open>@model_validator(mode="before")\<close>
  \<^verbatim>\<open>def content_or_urls_set(cls, values):\<close>
  \<^verbatim>\<open>    content, urls = values.get("content"), values.get("urls")\<close>
  \<^verbatim>\<open>    assert (content is None) != (urls is None), "..."\<close>
  \<^verbatim>\<open>    return values\<close>
  A failed assertion in a validator makes the constructor fail with a validation error
  that carries the assertion's message; the model keeps the assertion error as the
  failure value.
\<close>

definition content_or_urls_set :: "py_dict \<Rightarrow> py_error + py_dict" where
  "content_or_urls_set values =
     (let content = dict_get values ''content''; urls = dict_get values ''urls''
      in if (content = JNull) \<noteq> (urls = JNull) then Inr values
         else Inl (AssertionError
                ''SolcInputSource: exactly one of `content`, `urls` must be set''))"

text \<open>
  A source as the class declares it, and its constructor called with keyword arguments of
  the declared types: the validator runs on the arguments given (an argument left out and
  an argument passed as \<open>None\<close> read the same through \<open>get\<close>), then the object is made.
\<close>

record SolcInputSource =
  keccak256 :: "string option"
  source_content :: "string option"
  source_urls :: "string list option"

definition keyword_arguments ::
  "string option \<Rightarrow> string option \<Rightarrow> string list option \<Rightarrow> py_dict" where
  "keyword_arguments k c u =
     (case k of None \<Rightarrow> [] | Some x \<Rightarrow> [(''keccak256'', JStr x)])
     @ (case c of None \<Rightarrow> [] | Some x \<Rightarrow> [(''content'', JStr x)])
     @ (case u of None \<Rightarrow> [] | Some xs \<Rightarrow> [(''urls'', JList (map JStr xs))])"

definition SolcInputSource_init ::
  "string option \<Rightarrow> string option \<Rightarrow> string list option \<Rightarrow> py_error + SolcInputSource" where
  "SolcInputSource_init k c u =
     (case content_or_urls_set (keyword_arguments k c u) of
        Inl e \<Rightarrow> Inl e
      | Inr _ \<Rightarrow> Inr \<lparr>keccak256 = k, source_content = c, source_urls = u\<rparr>)"

text \<open>The validator that runs before the fields of a class are read: only
  \<open>SolcInputSource\<close> declares one.\<close>

definition before_validator :: "string \<Rightarrow> py_dict \<Rightarrow> py_error + py_dict" where
  "before_validator cls values =
     (if cls = ''SolcInputSource'' then content_or_urls_set values else Inr values)"

text \<open>
  Modelled from the spec: parsing a request document into the model and serializing it
  again (done by the model base class and its callers, which are not in
  input\_data\_model.py). Following the specification's design notes, a parsed model
  holds its declared fields, by Python name, and a catch-all bag of the fields it does
  not recognise; serialization writes the declared fields under their external names
  and then the bag. How the bag is filled depends on the \<open>extra\<close> setting of the
  configuration. A declared field is read from its external name or, with
  \<open>populate_by_name\<close>, from its Python name; fields missing from the document are left
  unset, and the types of plain values are not checked here.
\<close>

type_synonym class_table = "(string \<times> field_decl list) list"

datatype pvalue =
  PlainValue json
  | ModelValue string "(string \<times> pvalue) list" py_dict
  | ModelDict "(string \<times> pvalue) list"

datatype target = Model string | Field field_kind

text \<open>Results in order, up to the first error.\<close>

fun sequence_results :: "('e + 'a) list \<Rightarrow> 'e + 'a list" where
  "sequence_results [] = Inr []"
| "sequence_results (r # rs) =
     (case r of
        Inl e \<Rightarrow> Inl e
      | Inr x \<Rightarrow> (case sequence_results rs of Inl e \<Rightarrow> Inl e | Inr xs \<Rightarrow> Inr (x # xs)))"

definition lookup_field :: "model_config \<Rightarrow> py_dict \<Rightarrow> field_decl \<Rightarrow> (string \<times> json) option" where
  "lookup_field cfg kvs f =
     (case map_of kvs (wire_name cfg f) of
        Some v \<Rightarrow> Some (wire_name cfg f, v)
      | None \<Rightarrow>
          if populate_by_name cfg
          then (case map_of kvs (fname f) of Some v \<Rightarrow> Some (fname f, v) | None \<Rightarrow> None)
          else None)"

definition used_keys :: "model_config \<Rightarrow> py_dict \<Rightarrow> field_decl list \<Rightarrow> string list" where
  "used_keys cfg kvs decls = List.map_filter (\<lambda>f. map_option fst (lookup_field cfg kvs f)) decls"

definition collect_extra :: "model_config \<Rightarrow> py_dict \<Rightarrow> py_error + py_dict" where
  "collect_extra cfg unused =
     (case extra cfg of
        ExtraAllow \<Rightarrow> Inr unused
      | ExtraIgnore \<Rightarrow> Inr []
      | ExtraForbid \<Rightarrow> if unused = [] then Inr [] else Inl ValidationError)"

text \<open>Termination of parsing: a nested call is on a value inside the document.\<close>

lemma lookup_field_mem: "lookup_field cfg kvs f = Some (k, v) \<Longrightarrow> (k, v) \<in> set kvs"
  by (auto simp: lookup_field_def split: option.splits if_splits dest: map_of_SomeD)

lemma json_item_size: "(k, v) \<in> set kvs \<Longrightarrow> size v < size (JObj kvs)"
proof -
  assume "(k, v) \<in> set kvs"
  then have "size_prod (\<lambda>_. 0) size (k, v) \<le> size_list (size_prod (\<lambda>_. 0) size) kvs"
    by (rule size_list_estimation') simp
  then show ?thesis by simp
qed

function parse_as :: "model_config \<Rightarrow> class_table \<Rightarrow> target \<Rightarrow> json \<Rightarrow> py_error + pvalue" where
  "parse_as cfg ct (Model cls) doc =
     (case doc of
        JObj kvs \<Rightarrow>
          (case map_of ct cls of
             None \<Rightarrow> Inl ValidationError
           | Some decls \<Rightarrow>
               (case before_validator cls kvs of
                  Inl e \<Rightarrow> Inl e
                | Inr _ \<Rightarrow>
                    (case sequence_results
                            (map (\<lambda>f. case lookup_field cfg kvs f of
                                         None \<Rightarrow> Inr []
                                       | Some (k, v) \<Rightarrow>
                                           (case parse_as cfg ct (Field (fkind f)) v of
                                              Inl e \<Rightarrow> Inl e
                                            | Inr pv \<Rightarrow> Inr [(fname f, pv)]))
                               decls) of
                       Inl e \<Rightarrow> Inl e
                     | Inr fvs \<Rightarrow>
                         (case collect_extra cfg
                                 (filter (\<lambda>(k, v). k \<notin> set (used_keys cfg kvs decls)) kvs) of
                            Inl e \<Rightarrow> Inl e
                          | Inr extras \<Rightarrow> Inr (ModelValue cls (concat fvs) extras)))))
      | _ \<Rightarrow> Inl ValidationError)"
| "parse_as cfg ct (Field Plain) doc = Inr (PlainValue doc)"
| "parse_as cfg ct (Field (Sub cls)) doc =
     (if doc = JNull then Inr (PlainValue JNull) else parse_as cfg ct (Model cls) doc)"
| "parse_as cfg ct (Field (SubDict cls)) doc =
     (case doc of
        JObj items \<Rightarrow>
          (case sequence_results
                  (map (\<lambda>(k, v). case parse_as cfg ct (Model cls) v of
                                    Inl e \<Rightarrow> Inl e
                                  | Inr pv \<Rightarrow> Inr (k, pv))
                     items) of
             Inl e \<Rightarrow> Inl e
           | Inr ms \<Rightarrow> Inr (ModelDict ms))
      | _ \<Rightarrow> Inl ValidationError)"
  by pat_completeness auto
termination
  apply (relation "measure (\<lambda>(cfg, ct, t, doc). 2 * size doc + (case t of Model _ \<Rightarrow> 0 | Field _ \<Rightarrow> 1))")
  apply (auto dest!: lookup_field_mem json_item_size)
  done

declare parse_as.simps [simp del]

text \<open>Modelled from the spec: the external name of the field with Python name \<open>n\<close>.\<close>

definition external_key :: "model_config \<Rightarrow> class_table \<Rightarrow> string \<Rightarrow> string \<Rightarrow> string" where
  "external_key cfg ct cls n =
     (case map_of ct cls of
        None \<Rightarrow> n
      | Some decls \<Rightarrow>
          (case find (\<lambda>f. fname f = n) decls of None \<Rightarrow> n | Some f \<Rightarrow> wire_name cfg f))"

text \<open>Modelled from the spec: serialization, declared fields first, then the bag.\<close>

fun dump :: "model_config \<Rightarrow> class_table \<Rightarrow> pvalue \<Rightarrow> json" where
  "dump cfg ct (PlainValue j) = j"
| "dump cfg ct (ModelValue cls fvs extras) =
     JObj (map (\<lambda>(n, pv). (external_key cfg ct cls n, dump cfg ct pv)) fvs @ extras)"
| "dump cfg ct (ModelDict ms) = JObj (map (\<lambda>(k, pv). (k, dump cfg ct pv)) ms)"

text \<open>
  The unrecognised fields of a document read as a given class, at every depth: an item
  whose key is neither the external name nor the Python name of a declared field, with
  the path that leads to it (Python names of the declared fields on the way, keys
  elsewhere).
\<close>

definition field_of_key :: "model_config \<Rightarrow> field_decl list \<Rightarrow> string \<Rightarrow> field_decl option" where
  "field_of_key cfg decls k =
     find (\<lambda>f. wire_name cfg f = k \<or> (populate_by_name cfg \<and> fname f = k)) decls"

function unknown_fields ::
  "model_config \<Rightarrow> class_table \<Rightarrow> target \<Rightarrow> json \<Rightarrow> (string list \<times> json) list" where
  "unknown_fields cfg ct (Model cls) doc =
     (case doc of
        JObj kvs \<Rightarrow>
          (case map_of ct cls of
             None \<Rightarrow> []
           | Some decls \<Rightarrow>
               concat (map (\<lambda>(k, v). case field_of_key cfg decls k of
                                        None \<Rightarrow> [([k], v)]
                                      | Some f \<Rightarrow>
                                          map (\<lambda>(p, x). (fname f # p, x))
                                            (unknown_fields cfg ct (Field (fkind f)) v))
                         kvs))
      | _ \<Rightarrow> [])"
| "unknown_fields cfg ct (Field Plain) doc = []"
| "unknown_fields cfg ct (Field (Sub cls)) doc = unknown_fields cfg ct (Model cls) doc"
| "unknown_fields cfg ct (Field (SubDict cls)) doc =
     (case doc of
        JObj items \<Rightarrow>
          concat (map (\<lambda>(k, v). map (\<lambda>(p, x). (k # p, x))
                                   (unknown_fields cfg ct (Model cls) v))
                    items)
      | _ \<Rightarrow> [])"
  by pat_completeness auto
termination
  apply (relation "measure (\<lambda>(cfg, ct, t, doc). 2 * size doc + (case t of Model _ \<Rightarrow> 0 | Field _ \<Rightarrow> 1))")
  apply (auto dest!: json_item_size)
  done

declare unknown_fields.simps [simp del]

text \<open>A document as a Python dict has it: no object repeats a key.\<close>

fun distinct_keys :: "json \<Rightarrow> bool" where
  "distinct_keys (JObj kvs) \<longleftrightarrow>
     distinct (map fst kvs) \<and> list_all (\<lambda>p. distinct_keys (snd p)) kvs"
| "distinct_keys (JList xs) \<longleftrightarrow> list_all distinct_keys xs"
| "distinct_keys _ \<longleftrightarrow> True"

text \<open>
  A class table in which a key names one field only: each external name and each Python
  name leads back to its own field.
\<close>

definition unambiguous_class :: "model_config \<Rightarrow> field_decl list \<Rightarrow> bool" where
  "unambiguous_class cfg decls \<longleftrightarrow>
     list_all (\<lambda>f. field_of_key cfg decls (wire_name cfg f) = Some f
                 \<and> field_of_key cfg decls (fname f) = Some f
                 \<and> find (\<lambda>g. fname g = fname f) decls = Some f) decls"

definition unambiguous_table :: "model_config \<Rightarrow> class_table \<Rightarrow> bool" where
  "unambiguous_table cfg ct \<longleftrightarrow> list_all (\<lambda>(cls, decls). unambiguous_class cfg decls) ct"



section \<open>woke/ast/ir/statement/revert\_statement.py\<close>

subsection \<open>Nodes\<close>

text \<open>
  The raw compiler AST (\<open>woke.ast.nodes\<close>): a generic raw node with its id, node type,
  byte range and sub-nodes, and the raw revert statement, of which the constructor reads
  \<open>error_call\<close> and \<open>documentation\<close>.
\<close>

datatype solc_node =
  SolcNode (solc_id: nat) (solc_node_type: string) (solc_src: "nat \<times> nat")
    (solc_children: "solc_node list")

record SolcRevertStatement =
  revert_id :: nat
  revert_src :: "nat \<times> nat"
  revert_documentation :: "string option"
  revert_error_call :: solc_node

text \<open>
  Modelled from the spec: the typed IR nodes of the classes that are not in
  revert\_statement.py (\<open>FunctionCall\<close> and everything below it). A node keeps the id,
  kind and byte range of its raw node, a non-owning reference to its parent (the
  parent's id) and the children it owns.
\<close>

datatype ir_node =
  IrNode (ir_id: nat) (ir_node_type: string) (ir_byte_location: "nat \<times> nat")
    (ir_parent: nat) (ir_children: "ir_node list")

text \<open>
  Modelled from the spec: the constructor \<open>FunctionCall(init, raw, parent)\<close>, which is
  not in revert\_statement.py. Construction is one depth-first pass over the raw tree:
  the typed node is made for the raw node, the parent reference is threaded in, and the
  typed children are built from the raw node's sub-nodes.
\<close>

fun FunctionCall_init :: "solc_node \<Rightarrow> nat \<Rightarrow> ir_node" where
  "FunctionCall_init (SolcNode i t s cs) parent_ref =
     IrNode i t s parent_ref (map (\<lambda>c. FunctionCall_init c i) cs)"

text \<open>
  The revert statement: \<open>_ast_node\<close>, \<open>_parent\<close> (set by the base class constructor),
  \<open>__error_call\<close> and \<open>__documentation\<close>. The \<open>self\<close> handed to the child is the
  statement's own id.
\<close>

record RevertStatement =
  ast_node :: SolcRevertStatement
  parent :: nat
  error_call :: ir_node
  documentation :: "string option"

definition RevertStatement_init :: "SolcRevertStatement \<Rightarrow> nat \<Rightarrow> RevertStatement" where
  "RevertStatement_init revert parent_ref =
     \<lparr>ast_node = revert,
      parent = parent_ref,
      error_call = FunctionCall_init (revert_error_call revert) (revert_id revert),
      documentation = revert_documentation revert\<rparr>"

text \<open>What an iteration yields: \<open>IrAbc\<close> objects, here the statement or a node below it.\<close>

datatype ir_abc = RevertStatementNode RevertStatement | OtherNode ir_node

subsection \<open>Traversal\<close>

text \<open>
  A Python generator is a single-use cursor: \<open>next\<close> hands out the next item and moves
  on, and an exhausted generator stays exhausted. The model keeps the items still to be
  yielded.
\<close>

datatype 'a generator = Generator (pending: "'a list")

definition gen_next :: "'a generator \<Rightarrow> 'a option \<times> 'a generator" where
  "gen_next g =
     (case pending g of
        [] \<Rightarrow> (None, g)
      | x # xs \<Rightarrow> (Some x, Generator xs))"

text \<open>\<open>list(g)\<close>: call \<open>next\<close> until the generator is exhausted.\<close>

function drain :: "'a generator \<Rightarrow> 'a list \<times> 'a generator" where
  "drain g =
     (case gen_next g of
        (None, g') \<Rightarrow> ([], g')
      | (Some x, g') \<Rightarrow> (case drain g' of (xs, g'') \<Rightarrow> (x # xs, g'')))"
  by pat_completeness auto
termination
  by (relation "measure (\<lambda>g. length (pending g))")
     (auto simp: gen_next_def split: list.splits)

declare drain.simps [simp del]

text \<open>
  Modelled from the spec: \<open>FunctionCall.__iter__\<close>, which is not in
  revert\_statement.py. A node yields itself, then the traversals of its children in
  order.
\<close>

fun preorder_nodes :: "ir_node \<Rightarrow> ir_node list" where
  "preorder_nodes (IrNode i t s p cs) =
     IrNode i t s p cs # concat (map preorder_nodes cs)"

definition FunctionCall_iter :: "ir_node \<Rightarrow> ir_abc generator" where
  "FunctionCall_iter n = Generator (map OtherNode (preorder_nodes n))"

text \<open>
  \<^verbatim>\<open>def __iter__(self): yield self; yield from self.__error_call\<close>
  Each call makes a new generator; \<open>yield from\<close> hands out everything the inner
  generator yields.
\<close>

definition RevertStatement_iter :: "RevertStatement \<Rightarrow> ir_abc generator" where
  "RevertStatement_iter self =
     Generator (RevertStatementNode self # fst (drain (FunctionCall_iter (error_call self))))"

text \<open>
  Two iterations over the same node, one after the other:
  \<^verbatim>\<open>first = list(node); second = list(node)\<close>
\<close>

definition iterate_twice :: "RevertStatement \<Rightarrow> ir_abc list \<times> ir_abc list" where
  "iterate_twice self =
     (case drain (RevertStatement_iter self) of
        (first, _) \<Rightarrow>
          (case drain (RevertStatement_iter self) of
             (second, _) \<Rightarrow> (first, second)))"

text \<open>
  The traversal in the specification's words: the children a node owns, the nodes
  reachable through ownership, and the pre-order of the owned tree.
\<close>

fun owned_children :: "ir_abc \<Rightarrow> ir_abc list" where
  "owned_children (RevertStatementNode s) = [OtherNode (error_call s)]"
| "owned_children (OtherNode n) = map OtherNode (ir_children n)"

inductive_set subtree :: "ir_abc \<Rightarrow> ir_abc set" for root :: ir_abc where
  subtree_root: "root \<in> subtree root"
| subtree_child: "x \<in> subtree root \<Longrightarrow> c \<in> set (owned_children x) \<Longrightarrow> c \<in> subtree root"

fun abc_size :: "ir_abc \<Rightarrow> nat" where
  "abc_size (RevertStatementNode s) = Suc (size (error_call s))"
| "abc_size (OtherNode n) = size n"

lemma owned_children_smaller: "c \<in> set (owned_children x) \<Longrightarrow> abc_size c < abc_size x"
proof (cases x)
  case (RevertStatementNode s)
  assume "c \<in> set (owned_children x)"
  with RevertStatementNode show ?thesis by simp
next
  case (OtherNode n)
  assume c: "c \<in> set (owned_children x)"
  obtain i t s p cs where n: "n = IrNode i t s p cs" by (cases n)
  from c OtherNode n obtain m where m: "m \<in> set cs" "c = OtherNode m" by auto
  from m(1) have "size m \<le> size_list size cs"
    by (rule size_list_estimation') simp
  with m(2) OtherNode n show ?thesis by simp
qed

function spec_preorder :: "ir_abc \<Rightarrow> ir_abc list" where
  "spec_preorder x = x # concat (map spec_preorder (owned_children x))"
  by pat_completeness auto
termination
  by (relation "measure abc_size") (auto simp: owned_children_smaller)

declare spec_preorder.simps [simp del]

subsection \<open>The memoized property\<close>

text \<open>
  \<^verbatim>\<open>@property @lru_cache(maxsize=None) def modifies_state(self):\<close>
  \<^verbatim>\<open>    return self.error_call.modifies_state\<close>
  The cache belongs to the function and is keyed by \<open>self\<close>; objects are told apart by
  identity, so the model gives every statement object an identity and keeps the objects
  in a store that never changes (nodes are not mutated after construction). With
  \<open>maxsize=None\<close> nothing is ever evicted. \<open>computations\<close> is the instrumented counter:
  how often the body ran for each object. \<open>ModifiesStateFlag\<close> and
  \<open>FunctionCall.modifies_state\<close> are not in revert\_statement.py: the flag type is the
  type parameter \<open>'f\<close> and the property of the call is the parameter \<open>fc_modifies_state\<close>.
\<close>

record 'f lru_cache =
  entries :: "nat \<rightharpoonup> 'f"
  computations :: "nat \<Rightarrow> nat"

definition empty_cache :: "'f lru_cache" where
  "empty_cache = \<lparr>entries = Map.empty, computations = (\<lambda>_. 0)\<rparr>"

text \<open>
  The sub-expressions a revert statement owns: the constructor creates one child, the
  error call.
\<close>

definition owned_expressions :: "RevertStatement \<Rightarrow> ir_node list" where
  "owned_expressions self = [error_call self]"

text \<open>The body of the property, without the cache.\<close>

definition modifies_state_body :: "(ir_node \<Rightarrow> 'f) \<Rightarrow> RevertStatement \<Rightarrow> 'f" where
  "modifies_state_body fc_modifies_state self = fc_modifies_state (error_call self)"

text \<open>Reading the property of the object with identity \<open>oid\<close>.\<close>

definition modifies_state ::
  "(ir_node \<Rightarrow> 'f) \<Rightarrow> (nat \<Rightarrow> RevertStatement) \<Rightarrow> 'f lru_cache \<Rightarrow> nat \<Rightarrow> 'f \<times> 'f lru_cache" where
  "modifies_state fc_modifies_state store cache oid =
     (case entries cache oid of
        Some v \<Rightarrow> (v, cache)
      | None \<Rightarrow>
          (let v = modifies_state_body fc_modifies_state (store oid)
           in (v, cache\<lparr>entries := (entries cache)(oid \<mapsto> v),
                         computations := (computations cache)(oid := computations cache oid + 1)\<rparr>)))"

text \<open>A run of reads, in order, returning the values read and the final cache.\<close>

fun read_all ::
  "(ir_node \<Rightarrow> 'f) \<Rightarrow> (nat \<Rightarrow> RevertStatement) \<Rightarrow> 'f lru_cache \<Rightarrow> nat list \<Rightarrow> 'f list \<times> 'f lru_cache" where
  "read_all fc_modifies_state store cache [] = ([], cache)"
| "read_all fc_modifies_state store cache (oid # oids) =
     (case modifies_state fc_modifies_state store cache oid of
        (v, cache') \<Rightarrow>
          (case read_all fc_modifies_state store cache' oids of
             (vs, cache'') \<Rightarrow> (v # vs, cache'')))"

text \<open>
  The invariant of the cache: every entry holds what the body computes for its object,
  and the body has run once for an object with an entry and never for one without.
\<close>

definition cache_ok :: "(ir_node \<Rightarrow> 'f) \<Rightarrow> (nat \<Rightarrow> RevertStatement) \<Rightarrow> 'f lru_cache \<Rightarrow> bool" where
  "cache_ok f store c \<longleftrightarrow>
     (\<forall>oid v. entries c oid = Some v \<longrightarrow> v = modifies_state_body f (store oid))
     \<and> (\<forall>oid. computations c oid = (if entries c oid = None then 0 else 1))"



section \<open>The compiler version manager exercised by tests/test\_svm.py\<close>

text \<open>
  Modelled from the spec: \<open>SolcVersionManager\<close> (module \<open>wake.svm\<close>) is not among the
  source files; only its tests are. The definitions of this section follow section 4.1
  of the specification, one call at a time (no concurrent calls), with the error names
  of its section 7. In the tests \<open>UnsupportedVersion\<close> is \<open>UnsupportedVersionError\<close> and
  the other failures are \<open>ValueError\<close>.
\<close>

type_synonym version = "nat \<times> nat \<times> nat"

text \<open>Modelled from the spec: versions are totally ordered (major, then minor, then patch).\<close>

fun version_less :: "version \<Rightarrow> version \<Rightarrow> bool" where
  "version_less (a, b, c) (x, y, z) \<longleftrightarrow>
     a < x \<or> (a = x \<and> (b < y \<or> (b = y \<and> c < z)))"

text \<open>
  Modelled from the spec: a version string parses when it is three decimal numbers
  separated by dots; \<open>"0.8.a"\<close> does not parse.
\<close>

definition is_digit :: "char \<Rightarrow> bool" where
  "is_digit c \<longleftrightarrow> CHR ''0'' \<le> c \<and> c \<le> CHR ''9''"

definition nat_of_digits :: "string \<Rightarrow> nat" where
  "nat_of_digits s = foldl (\<lambda>n c. 10 * n + (of_char c - of_char CHR ''0'')) 0 s"

definition parse_number :: "string \<Rightarrow> nat option" where
  "parse_number s = (if s \<noteq> [] \<and> list_all is_digit s then Some (nat_of_digits s) else None)"

definition parse_version :: "string \<Rightarrow> version option" where
  "parse_version s =
     (case split_on CHR ''.'' s of
        [a, b, c] \<Rightarrow>
          (case (parse_number a, parse_number b, parse_number c) of
             (Some x, Some y, Some z) \<Rightarrow> Some (x, y, z)
           | _ \<Rightarrow> None)
      | _ \<Rightarrow> None)"

text \<open>Modelled from the spec: the failures of the version manager (section 7).\<close>

datatype svm_error = UnsupportedVersion | InvalidVersion | NotInstalled | TransferFailure

text \<open>
  Modelled from the spec: the install root of a manager holds one executable artifact
  per installed version and the cached list of available versions; the file system maps
  the path of an install root to its content.
\<close>

record artifact =
  artifact_bytes :: string
  executable :: bool

record install_root =
  installed :: "version \<rightharpoonup> artifact"
  available_cache :: "version list option"

type_synonym filesystem = "string \<Rightarrow> install_root"

text \<open>
  Modelled from the spec: the remote catalog publishes the supported range and the
  releasable versions, and serves the artifact of a version; \<open>None\<close> is a failed
  transfer.
\<close>

record catalog =
  supported_min :: version
  supported_max :: version
  releases :: "version list"
  download :: "version \<Rightarrow> string option"

text \<open>
  Modelled from the spec: the check \<open>install\<close> and \<open>get_path\<close> share. A string that
  does not parse is an InvalidVersion; a version below the lowest or above the highest
  supported one is an UnsupportedVersion.
\<close>

definition check_version :: "catalog \<Rightarrow> string \<Rightarrow> svm_error + version" where
  "check_version cat s =
     (case parse_version s of
        None \<Rightarrow> Inl InvalidVersion
      | Some v \<Rightarrow>
          if version_less v (supported_min cat) \<or> version_less (supported_max cat) v
          then Inl UnsupportedVersion
          else Inr v)"

text \<open>Modelled from the spec: \<open>list_installed\<close> reflects the install root exactly.\<close>

definition list_installed :: "filesystem \<Rightarrow> string \<Rightarrow> version set" where
  "list_installed fs root = dom (installed (fs root))"

text \<open>
  Modelled from the spec: \<open>list_available(force_refresh)\<close> answers from the cache of the
  install root unless there is none or \<open>force_refresh\<close> bypasses it; a fetched list is
  cached.
\<close>

definition list_available ::
  "catalog \<Rightarrow> string \<Rightarrow> filesystem \<Rightarrow> bool \<Rightarrow> version list \<times> filesystem" where
  "list_available cat root fs force_refresh =
     (case (if force_refresh then None else available_cache (fs root)) of
        Some vs \<Rightarrow> (vs, fs)
      | None \<Rightarrow>
          (releases cat, fs(root := (fs root)\<lparr>available_cache := Some (releases cat)\<rparr>)))"

text \<open>
  Modelled from the spec: \<open>install\<close> fails on an invalid or unsupported version without
  touching anything, succeeds as a no-op when the version is installed, and otherwise
  downloads the artifact, sets its executable bit and publishes it into the install root
  only when the transfer succeeded.
\<close>

definition install ::
  "catalog \<Rightarrow> string \<Rightarrow> filesystem \<Rightarrow> string \<Rightarrow> (svm_error + unit) \<times> filesystem" where
  "install cat root fs s =
     (case check_version cat s of
        Inl e \<Rightarrow> (Inl e, fs)
      | Inr v \<Rightarrow>
          if v \<in> list_installed fs root then (Inr (), fs)
          else
            (case download cat v of
               None \<Rightarrow> (Inl TransferFailure, fs)
             | Some bytes \<Rightarrow>
                 (Inr (),
                  fs(root := (fs root)\<lparr>installed :=
                       (installed (fs root))(v \<mapsto> \<lparr>artifact_bytes = bytes, executable = True\<rparr>)\<rparr>))))"

text \<open>Modelled from the spec: \<open>remove\<close> fails with a not-installed error if absent.\<close>

definition remove ::
  "string \<Rightarrow> filesystem \<Rightarrow> string \<Rightarrow> (svm_error + unit) \<times> filesystem" where
  "remove root fs s =
     (case parse_version s of
        None \<Rightarrow> (Inl InvalidVersion, fs)
      | Some v \<Rightarrow>
          if v \<in> list_installed fs root
          then (Inr (), fs(root := (fs root)\<lparr>installed := (installed (fs root))(v := None)\<rparr>))
          else (Inl NotInstalled, fs))"

text \<open>
  Modelled from the spec: \<open>get_path\<close> fails as \<open>install\<close> does on an invalid or
  unsupported version, fails with NotInstalled for a version that is valid and in range
  but absent, and otherwise gives the path of the artifact, named by the version string.
\<close>

definition get_path :: "catalog \<Rightarrow> string \<Rightarrow> filesystem \<Rightarrow> string \<Rightarrow> svm_error + string" where
  "get_path cat root fs s =
     (case check_version cat s of
        Inl e \<Rightarrow> Inl e
      | Inr v \<Rightarrow>
          if v \<in> list_installed fs root then Inr (root @ ''/'' @ s) else Inl NotInstalled)"

text \<open>A run of calls on one manager.\<close>

datatype svm_call = Install string | Remove string | ListAvailable bool

fun run_call :: "catalog \<Rightarrow> string \<Rightarrow> filesystem \<Rightarrow> svm_call \<Rightarrow> filesystem" where
  "run_call cat root fs (Install s) = snd (install cat root fs s)"
| "run_call cat root fs (Remove s) = snd (remove root fs s)"
| "run_call cat root fs (ListAvailable force_refresh) =
     snd (list_available cat root fs force_refresh)"

fun run_calls :: "catalog \<Rightarrow> string \<Rightarrow> filesystem \<Rightarrow> svm_call list \<Rightarrow> filesystem" where
  "run_calls cat root fs [] = fs"
| "run_calls cat root fs (c # cs) = run_calls cat root (run_call cat root fs c) cs"

text \<open>A catalog and an empty file system for concrete runs.\<close>

definition example_catalog :: catalog where
  "example_catalog =
     \<lparr>supported_min = (0, 4, 11), supported_max = (0, 8, 21),
      releases = [(0, 8, 9), (0, 8, 10)],
      download = (\<lambda>v. if v = (0, 8, 9) \<or> v = (0, 8, 10) then Some ''solc'' else None)\<rparr>"

definition empty_fs :: filesystem where
  "empty_fs = (\<lambda>_. \<lparr>installed = Map.empty, available_cache = None\<rparr>)"


section \<open>Field naming: results\<close>

lemma wire_name_all_fields:
  "list_all (\<lambda>f. wire_name SolcInputModel_config f = spec_wire_name (fname f))
     solc_input_all_fields"
  by code_simp

text \<open>
  C9. Every field of every class of the request model is emitted under the camel-cased
  form of its Python name (\<open>stop_after\<close> becomes \<open>stopAfter\<close>), except \<open>via_IR\<close> and
  \<open>append_CBOR\<close>, which are emitted as \<open>viaIR\<close> and \<open>appendCBOR\<close>; those two names
  are not what camel-casing would give (\<open>viaIr\<close>, \<open>appendCbor\<close>).
\<close>

theorem wire_names_camel_case:
  "(\<forall>f \<in> set solc_input_all_fields.
      wire_name SolcInputModel_config f =
        (if fname f = ''via_IR'' then ''viaIR''
         else if fname f = ''append_CBOR'' then ''appendCBOR''
         else to_camel (fname f)))
   \<and> to_camel ''stop_after'' = ''stopAfter''
   \<and> to_camel ''via_IR'' = ''viaIr'' \<and> to_camel ''via_IR'' \<noteq> ''viaIR''
   \<and> to_camel ''append_CBOR'' = ''appendCbor'' \<and> to_camel ''append_CBOR'' \<noteq> ''appendCBOR''"
proof -
  have "\<forall>f \<in> set solc_input_all_fields.
          wire_name SolcInputModel_config f = spec_wire_name (fname f)"
    using wire_name_all_fields by (simp only: list_all_iff)
  then have a: "\<forall>f \<in> set solc_input_all_fields.
      wire_name SolcInputModel_config f =
        (if fname f = ''via_IR'' then ''viaIR''
         else if fname f = ''append_CBOR'' then ''appendCBOR''
         else to_camel (fname f))"
    by (simp only: spec_wire_name_def)
  have b: "to_camel ''stop_after'' = ''stopAfter''" by code_simp
  have c: "to_camel ''via_IR'' = ''viaIr''" by code_simp
  have d: "to_camel ''append_CBOR'' = ''appendCbor''" by code_simp
  have e: "to_camel ''via_IR'' \<noteq> ''viaIR''" unfolding c by simp
  have f: "to_camel ''append_CBOR'' \<noteq> ''appendCBOR''" unfolding d by simp
  from a b c d e f show ?thesis by blast
qed

theorem wire_names_camel_case_witness:
  "fld ''stop_after'' \<in> set solc_input_all_fields
   \<and> wire_name SolcInputModel_config (fld ''stop_after'') = ''stopAfter''
   \<and> fld_alias ''via_IR'' ''viaIR'' \<in> set solc_input_all_fields
   \<and> wire_name SolcInputModel_config (fld_alias ''via_IR'' ''viaIR'') = ''viaIR''"
proof -
  have m1: "fld ''stop_after'' \<in> set solc_input_all_fields"
    by (simp add: solc_input_all_fields_def solc_input_classes_def SolcInputSettings_fields_def)
  have m2: "fld_alias ''via_IR'' ''viaIR'' \<in> set solc_input_all_fields"
    by (simp add: solc_input_all_fields_def solc_input_classes_def SolcInputSettings_fields_def)
  have n1: "fname (fld ''stop_after'') = ''stop_after''" by (simp add: fld_def)
  have n2: "fname (fld_alias ''via_IR'' ''viaIR'') = ''via_IR''" by (simp add: fld_alias_def)
  from wire_names_camel_case have all: "\<forall>f \<in> set solc_input_all_fields.
      wire_name SolcInputModel_config f =
        (if fname f = ''via_IR'' then ''viaIR''
         else if fname f = ''append_CBOR'' then ''appendCBOR''
         else to_camel (fname f))"
    and sa: "to_camel ''stop_after'' = ''stopAfter''" by blast+
  from all m1 n1 sa have w1: "wire_name SolcInputModel_config (fld ''stop_after'') = ''stopAfter''"
    by simp
  from all m2 n2 have w2: "wire_name SolcInputModel_config (fld_alias ''via_IR'' ''viaIR'') = ''viaIR''"
    by simp
  from m1 m2 w1 w2 show ?thesis by blast
qed


section \<open>SARIF levels: results\<close>

lemma impact_to_level_lookup: "getitem impact_to_level i = Inr (spec_level i)"
  by (cases i) (simp_all add: getitem_def impact_to_level_def)

lemma make_result_level:
  "make_result env st name r = Inr x \<Longrightarrow> level x = spec_level (impact r)"
  by (auto simp: make_result_def impact_to_level_lookup Let_def split: sum.splits)

lemma results_of_detector_levels:
  "results_of_detector env st name rs = Inr xs \<Longrightarrow>
   map level xs = map (\<lambda>r. spec_level (impact r)) rs"
proof (induction rs arbitrary: xs)
  case Nil
  then show ?case by simp
next
  case (Cons r rs)
  then show ?case
    by (auto split: sum.splits dest: make_result_level)
qed

lemma collect_results_levels:
  "collect_results env st ds = Inr xs \<Longrightarrow>
   map level xs = map (\<lambda>r. spec_level (impact r)) (concat (map snd ds))"
proof (induction ds arbitrary: xs)
  case Nil
  then show ?case by simp
next
  case (Cons d ds)
  obtain name r where d: "d = (name, r)" by (cases d)
  from Cons show ?case
    by (auto simp: d split: sum.splits dest: results_of_detector_levels)
qed

text \<open>
  C10. The \<open>impact_to_level\<close> table has an entry for every impact (the lookup never
  raises): HIGH, MEDIUM and LOW give "error", WARNING gives "warning", INFO gives "note".
  In a log that \<open>create_sarif_log\<close> returns, the levels of the results are, in order,
  the table's values at the impacts of the detector results: nothing else of the input
  enters a result's level.
\<close>

theorem sarif_level_from_impact:
  "getitem impact_to_level HIGH = Inr ''error''
   \<and> getitem impact_to_level MEDIUM = Inr ''error''
   \<and> getitem impact_to_level LOW = Inr ''error''
   \<and> getitem impact_to_level WARNING = Inr ''warning''
   \<and> getitem impact_to_level INFO = Inr ''note''
   \<and> (\<forall>i. \<exists>l. getitem impact_to_level i = Inr l)
   \<and> (\<forall>env detectors detections log.
        create_sarif_log env detectors detections = Inr log \<longrightarrow>
        map level (log_results log) =
          map (\<lambda>r. spec_level (impact r)) (concat (map snd detections)))"
proof -
  have tot: "\<forall>i. \<exists>l. getitem impact_to_level i = Inr l"
    using impact_to_level_lookup by blast
  have lv: "\<forall>env detectors detections log.
        create_sarif_log env detectors detections = Inr log \<longrightarrow>
        map level (log_results log) =
          map (\<lambda>r. spec_level (impact r)) (concat (map snd detections))"
    by (auto simp: create_sarif_log_def split: sum.splits dest: collect_results_levels)
  show ?thesis
    using tot lv by (simp add: impact_to_level_lookup)
qed

theorem sarif_level_from_impact_witness:
  "create_sarif_log
     \<lparr>loaded_from_plugins = [(''reentrancy'', FromPath ''detectors/reentrancy.py'')],
      distributions = []\<rparr>
     [''reentrancy'']
     [(''reentrancy'',
        [\<lparr>detection = Detection ''call before write'' [Detection ''write'' []], impact = LOW\<rparr>,
         \<lparr>detection = Detection ''unused'' [], impact = INFO\<rparr>])]
   = Inr \<lparr>log_driver_rules = [''reentrancy''], log_extensions = [],
          log_results =
            [\<lparr>rule_id = ''reentrancy'', rule_index = 0, tool_component = None,
              level = ''error'',
              message_text = ''call before write'' @ [CHR 0x0A] @ ''[0](0)'',
              related_count = 1\<rparr>,
             \<lparr>rule_id = ''reentrancy'', rule_index = 0, tool_component = None,
              level = ''note'', message_text = ''unused'' @ [CHR 0x0A], related_count = 0\<rparr>]\<rparr>
   \<and> map (\<lambda>r. spec_level (impact r))
        [\<lparr>detection = Detection ''call before write'' [Detection ''write'' []], impact = LOW\<rparr>,
         \<lparr>detection = Detection ''unused'' [], impact = INFO\<rparr>]
     = [''error'', ''note'']"
proof -
  let ?env = "\<lparr>loaded_from_plugins = [(''reentrancy'', FromPath ''detectors/reentrancy.py'')],
      distributions = []\<rparr>"
  let ?rs = "[\<lparr>detection = Detection ''call before write'' [Detection ''write'' []], impact = LOW\<rparr>,
         \<lparr>detection = Detection ''unused'' [], impact = INFO\<rparr>]"
  let ?log = "\<lparr>log_driver_rules = [''reentrancy''], log_extensions = [],
          log_results =
            [\<lparr>rule_id = ''reentrancy'', rule_index = 0, tool_component = None,
              level = ''error'',
              message_text = ''call before write'' @ [CHR 0x0A] @ ''[0](0)'',
              related_count = 1\<rparr>,
             \<lparr>rule_id = ''reentrancy'', rule_index = 0, tool_component = None,
              level = ''note'', message_text = ''unused'' @ [CHR 0x0A], related_count = 0\<rparr>]\<rparr>"
  have run: "create_sarif_log ?env [''reentrancy''] [(''reentrancy'', ?rs)] = Inr ?log"
    by code_simp
  from sarif_level_from_impact have
    "create_sarif_log ?env [''reentrancy''] [(''reentrancy'', ?rs)] = Inr ?log \<longrightarrow>
     map level (log_results ?log) =
       map (\<lambda>r. spec_level (impact r)) (concat (map snd [(''reentrancy'', ?rs)]))"
    by blast
  with run have "map (\<lambda>r. spec_level (impact r)) ?rs = [''error'', ''note'']"
    by simp
  with run show ?thesis by simp
qed


section \<open>Request model: validation of sources\<close>

text \<open>
  C1. The validator accepts a dict exactly when one of \<open>content\<close> and \<open>urls\<close> is set
  (not \<open>None\<close>) and the other is not; with both or neither set it raises the assertion
  error. So constructing a source with both or with neither fails in the constructor,
  and constructing it with exactly one of them (arguments of the declared types)
  succeeds and gives the object with the fields as passed.
\<close>

theorem content_xor_urls_validated:
  "(content_or_urls_set values = Inr values \<longleftrightarrow>
      (dict_get values ''content'' = JNull) \<noteq> (dict_get values ''urls'' = JNull))
   \<and> ((dict_get values ''content'' = JNull) = (dict_get values ''urls'' = JNull) \<longrightarrow>
        (\<exists>msg. content_or_urls_set values = Inl (AssertionError msg)))
   \<and> ((c = None) = (u = None) \<longrightarrow>
        (\<exists>msg. SolcInputSource_init k c u = Inl (AssertionError msg)))
   \<and> ((c = None) \<noteq> (u = None) \<longrightarrow>
        SolcInputSource_init k c u =
          Inr \<lparr>keccak256 = k, source_content = c, source_urls = u\<rparr>)"
proof -
  have v: "content_or_urls_set values = Inr values \<longleftrightarrow>
      (dict_get values ''content'' = JNull) \<noteq> (dict_get values ''urls'' = JNull)"
    by (simp add: content_or_urls_set_def Let_def)
  have w: "(dict_get values ''content'' = JNull) = (dict_get values ''urls'' = JNull) \<longrightarrow>
        (\<exists>msg. content_or_urls_set values = Inl (AssertionError msg))"
    by (simp add: content_or_urls_set_def Let_def)
  have a: "(c = None) = (u = None) \<longrightarrow>
        (\<exists>msg. SolcInputSource_init k c u = Inl (AssertionError msg))"
    by (cases k; cases c; cases u)
       (simp_all add: SolcInputSource_init_def content_or_urls_set_def Let_def
          keyword_arguments_def dict_get_def)
  have b: "(c = None) \<noteq> (u = None) \<longrightarrow>
        SolcInputSource_init k c u =
          Inr \<lparr>keccak256 = k, source_content = c, source_urls = u\<rparr>"
    by (cases k; cases c; cases u)
       (simp_all add: SolcInputSource_init_def content_or_urls_set_def Let_def
          keyword_arguments_def dict_get_def)
  from v w a b show ?thesis by blast
qed

theorem content_xor_urls_validated_witness:
  "SolcInputSource_init None (Some ''contract C {}'') None =
     Inr \<lparr>keccak256 = None, source_content = Some ''contract C {}'', source_urls = None\<rparr>
   \<and> SolcInputSource_init None None (Some [''ipfs://Qm'']) =
     Inr \<lparr>keccak256 = None, source_content = None, source_urls = Some [''ipfs://Qm'']\<rparr>
   \<and> (\<exists>msg. SolcInputSource_init None None None = Inl (AssertionError msg))
   \<and> (\<exists>msg. SolcInputSource_init None (Some ''contract C {}'') (Some [''ipfs://Qm''])
               = Inl (AssertionError msg))"
proof -
  note t1 = content_xor_urls_validated [of "[]" "Some ''contract C {}''" None None]
  note t2 = content_xor_urls_validated [of "[]" None "Some [''ipfs://Qm'']" None]
  note t3 = content_xor_urls_validated [of "[]" None None None]
  note t4 = content_xor_urls_validated [of "[]" "Some ''contract C {}''" "Some [''ipfs://Qm'']" None]
  from t1 have a: "SolcInputSource_init None (Some ''contract C {}'') None =
     Inr \<lparr>keccak256 = None, source_content = Some ''contract C {}'', source_urls = None\<rparr>"
    by simp
  from t2 have b: "SolcInputSource_init None None (Some [''ipfs://Qm'']) =
     Inr \<lparr>keccak256 = None, source_content = None, source_urls = Some [''ipfs://Qm'']\<rparr>"
    by simp
  from t3 have c: "\<exists>msg. SolcInputSource_init None None None = Inl (AssertionError msg)"
    by simp
  from t4 have d: "\<exists>msg. SolcInputSource_init None (Some ''contract C {}'') (Some [''ipfs://Qm''])
               = Inl (AssertionError msg)"
    by simp
  from a b c d show ?thesis by blast
qed


section \<open>Request model: round trip of unrecognised fields\<close>

lemma sequence_results_Inr:
  "sequence_results rs = Inr xs \<Longrightarrow> rs = map Inr xs"
proof (induction rs arbitrary: xs)
  case Nil
  then show ?case by simp
next
  case (Cons r rs)
  then show ?case by (auto split: sum.splits)
qed

lemma sequence_results_map:
  "sequence_results (map g ys) = Inr xs \<Longrightarrow> list_all2 (\<lambda>y x. g y = Inr x) ys xs"
proof (induction ys arbitrary: xs)
  case Nil
  then show ?case by simp
next
  case (Cons y ys)
  then show ?case by (auto split: sum.splits)
qed

lemma distinct_keys_item:
  "distinct_keys (JObj kvs) \<Longrightarrow> (k, v) \<in> set kvs \<Longrightarrow> distinct_keys v"
  by (auto simp: list_all_iff)

lemma distinct_keys_unique:
  "distinct_keys (JObj kvs) \<Longrightarrow> (k, v) \<in> set kvs \<Longrightarrow> (k, v') \<in> set kvs \<Longrightarrow> v = v'"
  by (auto dest: eq_key_imp_eq_value)

lemma unambiguous_classD:
  assumes "unambiguous_class cfg decls" and "f \<in> set decls"
  shows "field_of_key cfg decls (wire_name cfg f) = Some f"
    and "field_of_key cfg decls (fname f) = Some f"
    and "find (\<lambda>g. fname g = fname f) decls = Some f"
  using assms by (auto simp: unambiguous_class_def list_all_iff)

lemma unambiguous_tableD:
  "unambiguous_table cfg ct \<Longrightarrow> map_of ct cls = Some decls \<Longrightarrow> unambiguous_class cfg decls"
  by (auto simp: unambiguous_table_def list_all_iff dest: map_of_SomeD)

lemma lookup_field_key:
  "lookup_field cfg kvs f = Some (k, v) \<Longrightarrow> k = wire_name cfg f \<or> k = fname f"
  by (auto simp: lookup_field_def split: option.splits if_splits)

lemma used_keys_iff:
  "k \<in> set (used_keys cfg kvs decls) \<longleftrightarrow>
   (\<exists>f \<in> set decls. \<exists>v. lookup_field cfg kvs f = Some (k, v))"
  by (force simp: used_keys_def map_filter_def image_iff)


lemma model_fields_set:
  assumes seq: "sequence_results
           (map (\<lambda>f. case lookup_field cfg kvs f of
                        None \<Rightarrow> Inr []
                      | Some (k, v) \<Rightarrow>
                          (case parse_as cfg ct (Field (fkind f)) v of
                             Inl e \<Rightarrow> Inl e
                           | Inr pv \<Rightarrow> Inr [(fname f, pv)]))
              decls) = Inr fvss"
  shows "(n, pv) \<in> set (concat fvss) \<longleftrightarrow>
         (\<exists>f \<in> set decls. \<exists>k v. lookup_field cfg kvs f = Some (k, v)
            \<and> parse_as cfg ct (Field (fkind f)) v = Inr pv \<and> n = fname f)"
  using seq
proof (induction decls arbitrary: fvss)
  case Nil
  then show ?case by simp
next
  case (Cons d decls)
  then show ?case
    by (auto split: sum.splits option.splits prod.splits)
qed

lemma sequence_results_total:
  "sequence_results (map g ys) = Inr xs \<Longrightarrow> y \<in> set ys \<Longrightarrow> \<exists>x. g y = Inr x"
proof -
  assume a: "sequence_results (map g ys) = Inr xs" and y: "y \<in> set ys"
  from sequence_results_Inr[OF a] have "map g ys = map Inr xs" .
  moreover from y have "g y \<in> set (map g ys)" by simp
  ultimately show ?thesis by auto
qed

lemma subdict_round_trip:
  assumes seq: "list_all2 (\<lambda>(k, v) (k', pv). parse_as cfg ct (Model cls) v = Inr pv \<and> k' = k) items ms"
    and ih: "\<And>k v pv. (k, v) \<in> set items \<Longrightarrow> parse_as cfg ct (Model cls) v = Inr pv \<Longrightarrow>
               set (unknown_fields cfg ct (Model cls) (dump cfg ct pv)) =
               set (unknown_fields cfg ct (Model cls) v)"
  shows "set (concat (map (\<lambda>(k, v). map (\<lambda>(p, x). (k # p, x)) (unknown_fields cfg ct (Model cls) v))
                        (map (\<lambda>(k, pv). (k, dump cfg ct pv)) ms))) =
         set (concat (map (\<lambda>(k, v). map (\<lambda>(p, x). (k # p, x)) (unknown_fields cfg ct (Model cls) v))
                        items))"
  using seq ih
proof (induction items ms rule: list_all2_induct)
  case Nil
  then show ?case by simp
next
  case (Cons a items b ms)
  obtain k v where a: "a = (k, v)" by (cases a)
  obtain k' pv where b: "b = (k', pv)" by (cases b)
  from Cons.hyps(1) a b have p: "parse_as cfg ct (Model cls) v = Inr pv" and kk: "k' = k" by simp_all
  have h: "set (unknown_fields cfg ct (Model cls) (dump cfg ct pv)) =
           set (unknown_fields cfg ct (Model cls) v)"
    using Cons.prems[of k v pv] a p by simp
  have t: "set (concat (map (\<lambda>(k, v). map (\<lambda>(p, x). (k # p, x)) (unknown_fields cfg ct (Model cls) v))
                        (map (\<lambda>(k, pv). (k, dump cfg ct pv)) ms))) =
         set (concat (map (\<lambda>(k, v). map (\<lambda>(p, x). (k # p, x)) (unknown_fields cfg ct (Model cls) v))
                        items))"
  proof (rule Cons.IH)
    fix k0 v0 pv0
    assume "(k0, v0) \<in> set items" and "parse_as cfg ct (Model cls) v0 = Inr pv0"
    then show "set (unknown_fields cfg ct (Model cls) (dump cfg ct pv0)) =
               set (unknown_fields cfg ct (Model cls) v0)"
      using Cons.prems[of k0 v0 pv0] by simp
  qed
  show ?case
    using t h by (simp add: a b kk)
qed

lemma round_trip_unknown:
  assumes allow: "extra cfg = ExtraAllow" and wf: "unambiguous_table cfg ct"
  shows "distinct_keys doc \<Longrightarrow> parse_as cfg ct t doc = Inr pv \<Longrightarrow>
         set (unknown_fields cfg ct t (dump cfg ct pv)) = set (unknown_fields cfg ct t doc)"
  using allow wf
proof (induction cfg ct t doc arbitrary: pv rule: parse_as.induct)
  case (1 cfg ct cls doc)
  note allow = "1.prems"(3) and wf = "1.prems"(4)
  from "1.prems"(2) obtain kvs where doc: "doc = JObj kvs"
    by (cases doc) (simp_all add: parse_as.simps(1))
  let ?G = "\<lambda>f. case lookup_field cfg kvs f of
                        None \<Rightarrow> Inr []
                      | Some (k, v) \<Rightarrow>
                          (case parse_as cfg ct (Field (fkind f)) v of
                             Inl e \<Rightarrow> Inl e
                           | Inr pv \<Rightarrow> Inr [(fname f, pv)])"
  note p1 = "1.prems"(2)[unfolded doc parse_as.simps(1) json.case]
  from p1 obtain decls where ct: "map_of ct cls = Some decls"
    by (cases "map_of ct cls") simp_all
  from p1 ct obtain b where bv: "before_validator cls kvs = Inr b"
    by (cases "before_validator cls kvs") simp_all
  from p1 ct bv obtain fvss where
    seq: "sequence_results (map ?G decls) = Inr fvss"
    by (cases "sequence_results (map ?G decls)") simp_all
  let ?extras = "filter (\<lambda>(k, v). k \<notin> set (used_keys cfg kvs decls)) kvs"
  from p1 ct bv seq allow have pv:
    "pv = ModelValue cls (concat fvss) ?extras"
    by (simp add: collect_extra_def)
  have uc: "unambiguous_class cfg decls" using wf ct by (rule unambiguous_tableD)
  define U where "U = (\<lambda>(k, v). case field_of_key cfg decls k of
                        None \<Rightarrow> [([k], v)]
                      | Some f \<Rightarrow> map (\<lambda>(p, x). (fname f # p, x))
                                   (unknown_fields cfg ct (Field (fkind f)) v))"
  have lhs: "unknown_fields cfg ct (Model cls) (dump cfg ct pv) =
     concat (map U (map (\<lambda>(n, pv). (external_key cfg ct cls n, dump cfg ct pv)) (concat fvss)
                    @ ?extras))"
    by (simp add: pv ct U_def unknown_fields.simps(1))
  have rhs: "unknown_fields cfg ct (Model cls) doc = concat (map U kvs)"
    by (simp add: doc ct U_def unknown_fields.simps(1))
  have fields: "\<And>n pv'. (n, pv') \<in> set (concat fvss) \<longleftrightarrow>
         (\<exists>f \<in> set decls. \<exists>k v. lookup_field cfg kvs f = Some (k, v)
            \<and> parse_as cfg ct (Field (fkind f)) v = Inr pv' \<and> n = fname f)"
    using model_fields_set[OF seq] by simp
  have item: "set (U (external_key cfg ct cls (fname f), dump cfg ct pv')) = set (U (k, v))"
    if f: "f \<in> set decls" and l: "lookup_field cfg kvs f = Some (k, v)"
      and p: "parse_as cfg ct (Field (fkind f)) v = Inr pv'" for f k v pv'
  proof -
    have mem: "(k, v) \<in> set kvs" using l by (rule lookup_field_mem)
    have dv: "distinct_keys v"
      using "1.prems"(1) mem unfolding doc by (rule distinct_keys_item)
    have ih: "set (unknown_fields cfg ct (Field (fkind f)) (dump cfg ct pv')) =
              set (unknown_fields cfg ct (Field (fkind f)) v)"
      using "1.IH"[OF doc ct bv f l refl dv p allow wf] .
    have ek: "external_key cfg ct cls (fname f) = wire_name cfg f"
      using unambiguous_classD(3)[OF uc f] ct by (simp add: external_key_def)
    have fk1: "field_of_key cfg decls (wire_name cfg f) = Some f"
      using unambiguous_classD(1)[OF uc f] .
    have fk2: "field_of_key cfg decls k = Some f"
      using lookup_field_key[OF l] unambiguous_classD(1,2)[OF uc f] by auto
    show ?thesis
      using ih by (simp add: U_def ek fk1 fk2)
  qed
  have "set (concat (map U (map (\<lambda>(n, pv). (external_key cfg ct cls n, dump cfg ct pv)) (concat fvss)
                    @ ?extras))) = set (concat (map U kvs))"
  proof (intro set_eqI iffI)
    fix e
    assume "e \<in> set (concat (map U (map (\<lambda>(n, pv). (external_key cfg ct cls n, dump cfg ct pv))
                 (concat fvss) @ ?extras)))"
    then consider (fld) n pv' where "(n, pv') \<in> set (concat fvss)"
          "e \<in> set (U (external_key cfg ct cls n, dump cfg ct pv'))"
      | (ext) k v where "(k, v) \<in> set ?extras" "e \<in> set (U (k, v))"
      by auto
    then show "e \<in> set (concat (map U kvs))"
    proof cases
      case fld
      from fld(1) fields obtain f k v where f: "f \<in> set decls"
        and l: "lookup_field cfg kvs f = Some (k, v)"
        and p: "parse_as cfg ct (Field (fkind f)) v = Inr pv'" and n: "n = fname f"
        by blast
      from item[OF f l p] fld(2) n have "e \<in> set (U (k, v))" by simp
      moreover have "(k, v) \<in> set kvs" using l by (rule lookup_field_mem)
      ultimately show ?thesis by auto
    next
      case ext
      then show ?thesis by auto
    qed
  next
    fix e
    assume "e \<in> set (concat (map U kvs))"
    then obtain k v where mem: "(k, v) \<in> set kvs" and e: "e \<in> set (U (k, v))" by auto
    show "e \<in> set (concat (map U (map (\<lambda>(n, pv). (external_key cfg ct cls n, dump cfg ct pv))
                 (concat fvss) @ ?extras)))"
    proof (cases "k \<in> set (used_keys cfg kvs decls)")
      case False
      with mem have "(k, v) \<in> set ?extras" by simp
      with e show ?thesis by auto
    next
      case True
      then obtain f v' where f: "f \<in> set decls" and l': "lookup_field cfg kvs f = Some (k, v')"
        by (auto simp: used_keys_iff)
      have mem': "(k, v') \<in> set kvs" using l' by (rule lookup_field_mem)
      have dk: "distinct_keys (JObj kvs)" using "1.prems"(1) by (simp only: doc)
      have "v = v'" using dk mem mem' by (rule distinct_keys_unique)
      with l' have l: "lookup_field cfg kvs f = Some (k, v)" by simp
      from sequence_results_total[OF seq f] obtain r where "?G f = Inr r" by blast
      with l obtain pv' where p: "parse_as cfg ct (Field (fkind f)) v = Inr pv'"
        by (auto split: sum.splits)
      from f l p fields have "(fname f, pv') \<in> set (concat fvss)" by blast
      moreover from item[OF f l p] e
      have "e \<in> set (U (external_key cfg ct cls (fname f), dump cfg ct pv'))" by simp
      ultimately show ?thesis by force
    qed
  qed
  with lhs rhs show ?case by simp
next
  case (2 cfg ct doc)
  then show ?case by (simp add: parse_as.simps(2) unknown_fields.simps(2))
next
  case (3 cfg ct cls doc)
  show ?case
  proof (cases "doc = JNull")
    case True
    with "3.prems"(2) have "pv = PlainValue JNull" by (simp add: parse_as.simps(3))
    with True show ?thesis by simp
  next
    case False
    with "3.prems"(2) have p: "parse_as cfg ct (Model cls) doc = Inr pv"
      by (simp add: parse_as.simps(3))
    from "3.IH"[OF False "3.prems"(1) p "3.prems"(3,4)] show ?thesis
      by (simp add: unknown_fields.simps(3))
  qed
next
  case (4 cfg ct cls doc)
  from "4.prems"(2) obtain items where doc: "doc = JObj items"
    by (cases doc) (simp_all add: parse_as.simps(4))
  let ?H = "\<lambda>(k, v). case parse_as cfg ct (Model cls) v of
                                    Inl e \<Rightarrow> Inl e
                                  | Inr pv \<Rightarrow> Inr (k, pv)"
  from "4.prems"(2) doc obtain ms where seq: "sequence_results (map ?H items) = Inr ms"
    and pv: "pv = ModelDict ms"
    by (cases "sequence_results (map ?H items)") (auto simp: parse_as.simps(4))
  from sequence_results_map[OF seq]
  have "list_all2 (\<lambda>y x. ?H y = Inr x) items ms" .
  then have l2: "list_all2 (\<lambda>(k, v) (k', pv). parse_as cfg ct (Model cls) v = Inr pv \<and> k' = k) items ms"
    by (rule list_all2_mono) (auto split: sum.splits)
  have ih: "\<And>k v pv. (k, v) \<in> set items \<Longrightarrow> parse_as cfg ct (Model cls) v = Inr pv \<Longrightarrow>
               set (unknown_fields cfg ct (Model cls) (dump cfg ct pv)) =
               set (unknown_fields cfg ct (Model cls) v)"
  proof -
    fix k v pv'
    assume mem: "(k, v) \<in> set items" and p: "parse_as cfg ct (Model cls) v = Inr pv'"
    have dv: "distinct_keys v" using "4.prems"(1) mem unfolding doc by (rule distinct_keys_item)
    show "set (unknown_fields cfg ct (Model cls) (dump cfg ct pv')) =
               set (unknown_fields cfg ct (Model cls) v)"
      using "4.IH"[OF doc mem refl dv p "4.prems"(3,4)] .
  qed
  from subdict_round_trip[OF l2 ih] show ?case
    by (simp add: doc pv unknown_fields.simps(4))
qed

lemma solc_input_classes_unambiguous:
  "unambiguous_table SolcInputModel_config solc_input_classes"
  by code_simp

text \<open>
  C6. Spec-modelled. With the configuration of \<open>SolcInputModel\<close> (\<open>extra="allow"\<close>) and
  the classes of the request model: whenever a document (a dict, so no object repeats a
  key) parses as a class of the model, the document serialized from the parsed model has
  the same unrecognised fields as the original, with the same values, at the same
  places, at every depth of nested models.
\<close>

theorem unknown_fields_round_trip:
  "distinct_keys doc \<Longrightarrow>
   parse_as SolcInputModel_config solc_input_classes (Model cls) doc = Inr m \<Longrightarrow>
   set (unknown_fields SolcInputModel_config solc_input_classes (Model cls)
          (dump SolcInputModel_config solc_input_classes m)) =
   set (unknown_fields SolcInputModel_config solc_input_classes (Model cls) doc)"
proof -
  have allow: "extra SolcInputModel_config = ExtraAllow"
    by (simp add: SolcInputModel_config_def)
  assume "distinct_keys doc"
    and "parse_as SolcInputModel_config solc_input_classes (Model cls) doc = Inr m"
  then show ?thesis
    by (rule round_trip_unknown[OF allow solc_input_classes_unambiguous])
qed

theorem unknown_fields_round_trip_witness:
  "parse_as SolcInputModel_config solc_input_classes (Model ''SolcInput'')
     (JObj [(''language'', JStr ''Solidity''), (''future'', JInt 1),
            (''settings'', JObj [(''via_IR'', JBool True), (''x'', JNull)])])
   = Inr (ModelValue ''SolcInput''
            [(''language'', PlainValue (JStr ''Solidity'')),
             (''settings'',
                ModelValue ''SolcInputSettings''
                  [(''via_IR'', PlainValue (JBool True))] [(''x'', JNull)])]
            [(''future'', JInt 1)])
   \<and> dump SolcInputModel_config solc_input_classes
        (ModelValue ''SolcInput''
            [(''language'', PlainValue (JStr ''Solidity'')),
             (''settings'',
                ModelValue ''SolcInputSettings''
                  [(''via_IR'', PlainValue (JBool True))] [(''x'', JNull)])]
            [(''future'', JInt 1)])
     = JObj [(''language'', JStr ''Solidity''),
             (''settings'', JObj [(''viaIR'', JBool True), (''x'', JNull)]),
             (''future'', JInt 1)]
   \<and> set (unknown_fields SolcInputModel_config solc_input_classes (Model ''SolcInput'')
          (JObj [(''language'', JStr ''Solidity''),
                 (''settings'', JObj [(''viaIR'', JBool True), (''x'', JNull)]),
                 (''future'', JInt 1)]))
     = set (unknown_fields SolcInputModel_config solc_input_classes (Model ''SolcInput'')
          (JObj [(''language'', JStr ''Solidity''), (''future'', JInt 1),
                 (''settings'', JObj [(''via_IR'', JBool True), (''x'', JNull)])]))"
proof -
  let ?doc = "JObj [(''language'', JStr ''Solidity''), (''future'', JInt 1),
            (''settings'', JObj [(''via_IR'', JBool True), (''x'', JNull)])]"
  let ?m = "ModelValue ''SolcInput''
            [(''language'', PlainValue (JStr ''Solidity'')),
             (''settings'',
                ModelValue ''SolcInputSettings''
                  [(''via_IR'', PlainValue (JBool True))] [(''x'', JNull)])]
            [(''future'', JInt 1)]"
  have d: "distinct_keys ?doc" by simp
  have p: "parse_as SolcInputModel_config solc_input_classes (Model ''SolcInput'') ?doc = Inr ?m"
    by code_simp
  have o: "dump SolcInputModel_config solc_input_classes ?m
     = JObj [(''language'', JStr ''Solidity''),
             (''settings'', JObj [(''viaIR'', JBool True), (''x'', JNull)]),
             (''future'', JInt 1)]"
    by code_simp
  from unknown_fields_round_trip [OF d p] p o show ?thesis
    by (simp only: simp_thms)
qed

text \<open>
  The round trip depends on the \<open>extra\<close> setting: with \<open>extra="ignore"\<close> the same
  document loses its unrecognised fields.
\<close>

lemma extra_ignore_drops_unknown_fields:
  "map_sum id (dump (SolcInputModel_config\<lparr>extra := ExtraIgnore\<rparr>) solc_input_classes)
     (parse_as (SolcInputModel_config\<lparr>extra := ExtraIgnore\<rparr>) solc_input_classes
        (Model ''SolcInput'')
        (JObj [(''language'', JStr ''Solidity''), (''future'', JInt 1),
               (''settings'', JObj [(''via_IR'', JBool True), (''x'', JNull)])]))
   = Inr (JObj [(''language'', JStr ''Solidity''),
                (''settings'', JObj [(''viaIR'', JBool True)])])"
  by code_simp


section \<open>Revert statement: traversal\<close>

lemma drain_Generator: "drain (Generator xs) = (xs, Generator [])"
proof (induction xs)
  case Nil
  show ?case by (subst drain.simps) (simp add: gen_next_def)
next
  case (Cons x xs)
  show ?case by (subst drain.simps) (simp add: gen_next_def Cons)
qed

lemma spec_preorder_OtherNode: "spec_preorder (OtherNode n) = map OtherNode (preorder_nodes n)"
proof (induction n)
  case (IrNode i t s p cs)
  have "concat (map spec_preorder (map OtherNode cs)) =
        concat (map (\<lambda>c. map OtherNode (preorder_nodes c)) cs)"
    using IrNode by (induction cs) auto
  then show ?case
    by (subst spec_preorder.simps) (simp add: map_concat comp_def)
qed

lemma spec_preorder_RevertStatementNode:
  "spec_preorder (RevertStatementNode s) =
     RevertStatementNode s # map OtherNode (preorder_nodes (error_call s))"
  by (subst spec_preorder.simps) (simp add: spec_preorder_OtherNode)

lemma subtree_trans: "y \<in> subtree x \<Longrightarrow> x \<in> subtree r \<Longrightarrow> y \<in> subtree r"
  by (induction rule: subtree.induct) (auto intro: subtree.intros)

lemma spec_preorder_subset_subtree: "set (spec_preorder x) \<subseteq> subtree x"
proof (induction x rule: spec_preorder.induct)
  case (1 x)
  have "\<And>c. c \<in> set (owned_children x) \<Longrightarrow> set (spec_preorder c) \<subseteq> subtree x"
  proof -
    fix c assume c: "c \<in> set (owned_children x)"
    have "c \<in> subtree x" using c by (auto intro: subtree.intros)
    with "1"[OF c] show "set (spec_preorder c) \<subseteq> subtree x"
      by (auto intro: subtree_trans)
  qed
  then show ?case
    by (subst spec_preorder.simps) (auto intro: subtree_root)
qed

lemma spec_preorder_head: "x \<in> set (spec_preorder x)"
  by (subst spec_preorder.simps) simp

lemma spec_preorder_closed:
  "x \<in> set (spec_preorder r) \<Longrightarrow> set (spec_preorder x) \<subseteq> set (spec_preorder r)"
proof (induction r rule: spec_preorder.induct)
  case (1 r)
  from "1.prems" have "x = r \<or> (\<exists>c \<in> set (owned_children r). x \<in> set (spec_preorder c))"
    by (subst (asm) spec_preorder.simps) auto
  then show ?case
  proof
    assume "x = r" then show ?thesis by simp
  next
    assume "\<exists>c \<in> set (owned_children r). x \<in> set (spec_preorder c)"
    then obtain c where c: "c \<in> set (owned_children r)" "x \<in> set (spec_preorder c)" by blast
    from "1.IH"[OF c] have "set (spec_preorder x) \<subseteq> set (spec_preorder c)" .
    moreover have "set (spec_preorder c) \<subseteq> set (spec_preorder r)"
      using c(1) by (subst (2) spec_preorder.simps) auto
    ultimately show ?thesis by blast
  qed
qed

lemma subtree_subset_spec_preorder: "y \<in> subtree r \<Longrightarrow> y \<in> set (spec_preorder r)"
proof (induction rule: subtree.induct)
  case subtree_root
  show ?case by (rule spec_preorder_head)
next
  case (subtree_child x c)
  have "c \<in> set (spec_preorder x)"
    using subtree_child(2) spec_preorder_head[of c] by (subst spec_preorder.simps) auto
  with spec_preorder_closed[OF subtree_child(3)] show ?case by blast
qed

lemma set_spec_preorder: "set (spec_preorder x) = subtree x"
  using spec_preorder_subset_subtree subtree_subset_spec_preorder by blast

lemma drain_RevertStatement_iter:
  "drain (RevertStatement_iter s) =
     (RevertStatementNode s # map OtherNode (preorder_nodes (error_call s)), Generator [])"
  by (simp add: RevertStatement_iter_def FunctionCall_iter_def drain_Generator)

text \<open>
  C4. Iterating over a revert statement yields the statement itself first and then the
  nodes of its error call's subtree in pre-order: the sequence is the pre-order of the
  tree the statement owns, it contains exactly the nodes reachable from the statement
  through ownership, and it is a finite list after which the generator is exhausted.
  The exhausted generator yields nothing more, but a new iteration over the same node
  starts from scratch and yields the same sequence.
\<close>

theorem RevertStatement_iter_preorder:
  "fst (drain (RevertStatement_iter s)) =
     RevertStatementNode s # map OtherNode (preorder_nodes (error_call s))
   \<and> fst (drain (RevertStatement_iter s)) = spec_preorder (RevertStatementNode s)
   \<and> set (fst (drain (RevertStatement_iter s))) = subtree (RevertStatementNode s)
   \<and> snd (drain (RevertStatement_iter s)) = Generator []
   \<and> fst (drain (snd (drain (RevertStatement_iter s)))) = []
   \<and> iterate_twice s =
       (spec_preorder (RevertStatementNode s), spec_preorder (RevertStatementNode s))"
proof -
  have a: "fst (drain (RevertStatement_iter s)) = spec_preorder (RevertStatementNode s)"
    by (simp add: drain_RevertStatement_iter spec_preorder_RevertStatementNode)
  have b: "set (fst (drain (RevertStatement_iter s))) = subtree (RevertStatementNode s)"
    unfolding a by (rule set_spec_preorder)
  have c: "iterate_twice s =
       (spec_preorder (RevertStatementNode s), spec_preorder (RevertStatementNode s))"
    by (simp add: iterate_twice_def drain_RevertStatement_iter
        spec_preorder_RevertStatementNode)
  have d: "fst (drain (snd (drain (RevertStatement_iter s)))) = []"
    by (simp add: drain_RevertStatement_iter drain_Generator)
  show ?thesis
    using a b c d by (simp add: drain_RevertStatement_iter)
qed

theorem RevertStatement_iter_preorder_witness:
  "fst (drain (RevertStatement_iter
      (RevertStatement_init
         \<lparr>revert_id = 1, revert_src = (0, 10), revert_documentation = None,
          revert_error_call =
            SolcNode 2 ''FunctionCall'' (7, 9)
              [SolcNode 3 ''Identifier'' (7, 8) [], SolcNode 4 ''Literal'' (8, 9) []]\<rparr> 0)))
   = [RevertStatementNode
        (RevertStatement_init
           \<lparr>revert_id = 1, revert_src = (0, 10), revert_documentation = None,
            revert_error_call =
              SolcNode 2 ''FunctionCall'' (7, 9)
                [SolcNode 3 ''Identifier'' (7, 8) [], SolcNode 4 ''Literal'' (8, 9) []]\<rparr> 0),
      OtherNode (IrNode 2 ''FunctionCall'' (7, 9) 1
        [IrNode 3 ''Identifier'' (7, 8) 2 [], IrNode 4 ''Literal'' (8, 9) 2 []]),
      OtherNode (IrNode 3 ''Identifier'' (7, 8) 2 []),
      OtherNode (IrNode 4 ''Literal'' (8, 9) 2 [])]"
proof -
  let ?s = "RevertStatement_init
         \<lparr>revert_id = 1, revert_src = (0, 10), revert_documentation = None,
          revert_error_call =
            SolcNode 2 ''FunctionCall'' (7, 9)
              [SolcNode 3 ''Identifier'' (7, 8) [], SolcNode 4 ''Literal'' (8, 9) []]\<rparr> 0"
  have "fst (drain (RevertStatement_iter ?s)) =
     RevertStatementNode ?s # map OtherNode (preorder_nodes (error_call ?s))"
    using RevertStatement_iter_preorder [of ?s] by blast
  then show ?thesis
    by (simp add: RevertStatement_init_def)
qed


section \<open>Revert statement: the memoized property\<close>

lemma cache_ok_empty: "cache_ok f store empty_cache"
  by (simp add: cache_ok_def empty_cache_def)

lemma modifies_state_hit:
  "entries c oid = Some v \<Longrightarrow> modifies_state f store c oid = (v, c)"
  by (simp add: modifies_state_def)

lemma modifies_state_miss:
  "entries c oid = None \<Longrightarrow>
   modifies_state f store c oid =
     (f (error_call (store oid)),
      c\<lparr>entries := (entries c)(oid \<mapsto> f (error_call (store oid))),
        computations := (computations c)(oid := computations c oid + 1)\<rparr>)"
  by (simp add: modifies_state_def modifies_state_body_def Let_def)

lemma modifies_state_step:
  assumes ok: "cache_ok f store c" and run: "modifies_state f store c oid = (v, c')"
  shows "v = f (error_call (store oid))"
    and "cache_ok f store c'"
    and "entries c' oid \<noteq> None"
    and "\<And>o'. o' \<noteq> oid \<Longrightarrow> entries c' o' = entries c o'"
    and "entries c oid \<noteq> None \<Longrightarrow> c' = c"
proof -
  from ok have e: "\<And>o' w. entries c o' = Some w \<Longrightarrow> w = f (error_call (store o'))"
    and k: "\<And>o'. computations c o' = (if entries c o' = None then 0 else 1)"
    by (simp_all add: cache_ok_def modifies_state_body_def)
  show "v = f (error_call (store oid))"
  proof (cases "entries c oid")
    case None
    with run show ?thesis by (simp add: modifies_state_miss)
  next
    case (Some w)
    with run e[OF Some] show ?thesis by (simp add: modifies_state_hit)
  qed
  show "cache_ok f store c'"
  proof (cases "entries c oid")
    case None
    with run have c': "c' = c\<lparr>entries := (entries c)(oid \<mapsto> f (error_call (store oid))),
        computations := (computations c)(oid := computations c oid + 1)\<rparr>"
      by (auto simp: modifies_state_miss)
    have "\<And>o' w. entries c' o' = Some w \<Longrightarrow> w = f (error_call (store o'))"
      using e by (auto simp: c' split: if_splits)
    moreover have "\<And>o'. computations c' o' = (if entries c' o' = None then 0 else 1)"
      using k None by (simp add: c')
    ultimately show ?thesis
      by (simp add: cache_ok_def modifies_state_body_def)
  next
    case (Some w)
    with run ok show ?thesis by (simp add: modifies_state_hit)
  qed
  show "entries c' oid \<noteq> None"
    using run by (cases "entries c oid") (auto simp: modifies_state_miss modifies_state_hit)
  show "\<And>o'. o' \<noteq> oid \<Longrightarrow> entries c' o' = entries c o'"
    using run by (cases "entries c oid") (auto simp: modifies_state_miss modifies_state_hit)
  show "entries c oid \<noteq> None \<Longrightarrow> c' = c"
    using run by (cases "entries c oid") (auto simp: modifies_state_hit)
qed

lemma read_all_inv:
  "cache_ok f store c \<Longrightarrow> read_all f store c oids = (vs, c') \<Longrightarrow>
   vs = map (\<lambda>oid. f (error_call (store oid))) oids
   \<and> cache_ok f store c'
   \<and> (\<forall>oid. entries c' oid = None \<longleftrightarrow> entries c oid = None \<and> oid \<notin> set oids)"
proof (induction oids arbitrary: c vs c')
  case Nil
  then show ?case by simp
next
  case (Cons oid oids)
  obtain v c1 where s1: "modifies_state f store c oid = (v, c1)"
    by (cases "modifies_state f store c oid")
  obtain ws c2 where s2: "read_all f store c1 oids = (ws, c2)"
    by (cases "read_all f store c1 oids")
  from Cons.prems(2) s1 s2 have r: "vs = v # ws" "c' = c2" by simp_all
  note st = modifies_state_step[OF Cons.prems(1) s1]
  from Cons.IH[OF st(2) s2] have ih:
    "ws = map (\<lambda>oid. f (error_call (store oid))) oids"
    "cache_ok f store c2"
    "\<forall>o'. entries c2 o' = None \<longleftrightarrow> entries c1 o' = None \<and> o' \<notin> set oids"
    by simp_all
  have "\<forall>o'. entries c2 o' = None \<longleftrightarrow> entries c o' = None \<and> o' \<notin> set (oid # oids)"
  proof
    fix o'
    show "entries c2 o' = None \<longleftrightarrow> entries c o' = None \<and> o' \<notin> set (oid # oids)"
      using ih(3) st(3) st(4)[of o'] by (cases "o' = oid") auto
  qed
  with r ih st(1) show ?case by simp
qed

lemma read_all_from_empty:
  "fst (read_all f store empty_cache oids) = map (\<lambda>oid. f (error_call (store oid))) oids"
  "cache_ok f store (snd (read_all f store empty_cache oids))"
  "entries (snd (read_all f store empty_cache oids)) oid = None \<longleftrightarrow> oid \<notin> set oids"
  using read_all_inv[OF cache_ok_empty, of f store oids
      "fst (read_all f store empty_cache oids)" "snd (read_all f store empty_cache oids)"]
  by (simp_all add: empty_cache_def)

lemma computations_from_empty:
  "computations (snd (read_all f store empty_cache oids)) oid = (if oid \<in> set oids then 1 else 0)"
  using read_all_from_empty(2)[of f store oids] read_all_from_empty(3)[of f store oids oid]
  by (simp add: cache_ok_def)

lemma snd_read_all_Cons:
  "snd (read_all g store c (oid # oids)) =
     snd (read_all g store (snd (modifies_state g store c oid)) oids)"
  by (simp split: prod.splits)

lemma modifies_state_keeps_entry:
  assumes "entries c oid = Some v"
  shows "entries (snd (modifies_state g store c oid')) oid = Some v"
    and "computations (snd (modifies_state g store c oid')) oid = computations c oid"
proof -
  show "entries (snd (modifies_state g store c oid')) oid = Some v"
  proof (cases "entries c oid'")
    case None
    with assms have "oid' \<noteq> oid" by auto
    with None assms show ?thesis by (simp add: modifies_state_miss)
  next
    case (Some w)
    with assms show ?thesis by (simp add: modifies_state_hit)
  qed
  show "computations (snd (modifies_state g store c oid')) oid = computations c oid"
  proof (cases "entries c oid'")
    case None
    with assms have "oid' \<noteq> oid" by auto
    with None show ?thesis by (simp add: modifies_state_miss)
  next
    case (Some w)
    then show ?thesis by (simp add: modifies_state_hit)
  qed
qed

lemma read_all_keeps_entry:
  "entries c oid = Some v \<Longrightarrow>
   entries (snd (read_all g store c later_reads)) oid = Some v
   \<and> computations (snd (read_all g store c later_reads)) oid = computations c oid"
proof (induction later_reads arbitrary: c)
  case Nil
  then show ?case by simp
next
  case (Cons oid' later_reads)
  note k = modifies_state_keeps_entry[OF Cons.prems, of g store oid']
  from Cons.IH[OF k(1)] k(2) show ?case
    by (simp only: snd_read_all_Cons)
qed

lemma entries_from_empty:
  "entries (snd (read_all f store empty_cache oids)) oid =
     (if oid \<in> set oids then Some (f (error_call (store oid))) else None)"
proof (cases "oid \<in> set oids")
  case False
  then show ?thesis using read_all_from_empty(3)[of f store oids oid] by simp
next
  case True
  then obtain v where v: "entries (snd (read_all f store empty_cache oids)) oid = Some v"
    using read_all_from_empty(3)[of f store oids oid] by auto
  with read_all_from_empty(2)[of f store oids] have "v = f (error_call (store oid))"
    by (simp add: cache_ok_def modifies_state_body_def)
  with v True show ?thesis by simp
qed

text \<open>
  C5. Over any run of reads of \<open>modifies_state\<close> that starts with the empty cache, every
  read of a node returns the same value, the body has run exactly once for every node
  that was read (and never for a node that was not), and the cache holds an entry with
  that value for exactly the nodes read. The first read of a node runs the body and
  stores its result. From then on the stored entry answers: a read of that node returns
  the stored value and leaves the cache and the counter as they are, immediately or
  after any number of further reads, and it does so whatever body is supplied for the
  later reads, so the body is not evaluated again for that node.
\<close>

theorem modifies_state_memoized:
  "fst (read_all f store empty_cache oids) = map (\<lambda>oid. f (error_call (store oid))) oids
   \<and> computations (snd (read_all f store empty_cache oids)) oid =
       (if oid \<in> set oids then 1 else 0)
   \<and> entries (snd (read_all f store empty_cache oids)) oid =
       (if oid \<in> set oids then Some (f (error_call (store oid))) else None)
   \<and> (case modifies_state f store (snd (read_all f store empty_cache oids)) oid of
        (v1, c1) \<Rightarrow>
          (case modifies_state f store c1 oid of
             (v2, c2) \<Rightarrow> v1 = v2 \<and> c2 = c1 \<and> computations c1 oid = 1))
   \<and> (case modifies_state f store (snd (read_all f store empty_cache oids)) oid of
        (v1, c1) \<Rightarrow>
          v1 = f (error_call (store oid))
          \<and> entries c1 oid = Some v1
          \<and> modifies_state g store c1 oid = (v1, c1)
          \<and> entries (snd (read_all g store c1 later_reads)) oid = Some v1
          \<and> computations (snd (read_all g store c1 later_reads)) oid = 1
          \<and> modifies_state g store (snd (read_all g store c1 later_reads)) oid =
              (v1, snd (read_all g store c1 later_reads)))
   \<and> modifies_state g store empty_cache oid =
       (g (error_call (store oid)),
        \<lparr>entries = [oid \<mapsto> g (error_call (store oid))],
         computations = (\<lambda>_. 0)(oid := 1)\<rparr>)"
proof -
  let ?c0 = "snd (read_all f store empty_cache oids)"
  obtain v1 c1 where s1: "modifies_state f store ?c0 oid = (v1, c1)"
    by (cases "modifies_state f store ?c0 oid")
  obtain v2 c2 where s2: "modifies_state f store c1 oid = (v2, c2)"
    by (cases "modifies_state f store c1 oid")
  note a = modifies_state_step[OF read_all_from_empty(2) s1]
  note b = modifies_state_step[OF a(2) s2]
  have e1: "v1 = v2" using a(1) b(1) by simp
  have e2: "c2 = c1" using b(5) a(3) by simp
  have k1: "computations c1 oid = 1" using a(2) a(3) by (simp add: cache_ok_def)
  from a(3) obtain w where w: "entries c1 oid = Some w" by auto
  with a(2) a(1) have "w = v1" by (simp add: cache_ok_def modifies_state_body_def)
  with w have st: "entries c1 oid = Some v1" by simp
  have hit: "modifies_state g store c1 oid = (v1, c1)"
    using st by (rule modifies_state_hit)
  note keep = read_all_keeps_entry[OF st, of g store later_reads]
  have later: "modifies_state g store (snd (read_all g store c1 later_reads)) oid =
              (v1, snd (read_all g store c1 later_reads))"
    using keep by (simp add: modifies_state_hit)
  have first: "modifies_state g store empty_cache oid =
       (g (error_call (store oid)),
        \<lparr>entries = [oid \<mapsto> g (error_call (store oid))],
         computations = (\<lambda>_. 0)(oid := 1)\<rparr>)"
    by (simp add: modifies_state_def modifies_state_body_def empty_cache_def Let_def)
  show ?thesis
    using s1 s2 e1 e2 k1 a(1) st hit keep later first
    by (simp add: read_all_from_empty(1) computations_from_empty entries_from_empty)
qed

theorem modifies_state_memoized_witness:
  "fst (modifies_state (\<lambda>n. {ir_id n})
          (\<lambda>_. RevertStatement_init
             \<lparr>revert_id = 1, revert_src = (0, 10), revert_documentation = None,
              revert_error_call = SolcNode 2 ''FunctionCall'' (7, 9) []\<rparr> 0)
          empty_cache 0) = {2::nat}
   \<and> modifies_state (\<lambda>_. {})
         (\<lambda>_. RevertStatement_init
            \<lparr>revert_id = 1, revert_src = (0, 10), revert_documentation = None,
             revert_error_call = SolcNode 2 ''FunctionCall'' (7, 9) []\<rparr> 0)
         (snd (modifies_state (\<lambda>n. {ir_id n})
            (\<lambda>_. RevertStatement_init
               \<lparr>revert_id = 1, revert_src = (0, 10), revert_documentation = None,
                revert_error_call = SolcNode 2 ''FunctionCall'' (7, 9) []\<rparr> 0)
            empty_cache 0)) 0
       = ({2::nat},
          snd (modifies_state (\<lambda>n. {ir_id n})
            (\<lambda>_. RevertStatement_init
               \<lparr>revert_id = 1, revert_src = (0, 10), revert_documentation = None,
                revert_error_call = SolcNode 2 ''FunctionCall'' (7, 9) []\<rparr> 0)
            empty_cache 0))
   \<and> computations
         (snd (modifies_state (\<lambda>n. {ir_id n})
            (\<lambda>_. RevertStatement_init
               \<lparr>revert_id = 1, revert_src = (0, 10), revert_documentation = None,
                revert_error_call = SolcNode 2 ''FunctionCall'' (7, 9) []\<rparr> 0)
            empty_cache 0)) 0 = 1"
proof -
  let ?f = "\<lambda>n. {ir_id n}"
  let ?g = "\<lambda>_::ir_node. {}::nat set"
  let ?store = "\<lambda>_::nat. RevertStatement_init
            \<lparr>revert_id = 1, revert_src = (0, 10), revert_documentation = None,
             revert_error_call = SolcNode 2 ''FunctionCall'' (7, 9) []\<rparr> 0"
  obtain v1 c1 where s: "modifies_state ?f ?store empty_cache 0 = (v1, c1)"
    by (cases "modifies_state ?f ?store empty_cache 0")
  from modifies_state_memoized [of ?f ?store "[]" 0 ?g "[]"] s
  have "v1 = ?f (error_call (?store 0))
        \<and> modifies_state ?g ?store c1 0 = (v1, c1)
        \<and> computations c1 0 = 1"
    by simp
  moreover have "?f (error_call (?store 0)) = {2}"
    by (simp add: RevertStatement_init_def)
  ultimately show ?thesis
    using s by simp
qed

lemma modifies_state_value:
  "fst (modifies_state f store (snd (read_all f store empty_cache oids)) oid) =
     f (error_call (store oid))"
proof -
  obtain v c1 where s1:
    "modifies_state f store (snd (read_all f store empty_cache oids)) oid = (v, c1)"
    by (cases "modifies_state f store (snd (read_all f store empty_cache oids)) oid")
  from modifies_state_step(1)[OF read_all_from_empty(2) s1] s1 show ?thesis by simp
qed

text \<open>
  C7. Whatever was read before, reading \<open>modifies_state\<close> of a revert statement returns
  the \<open>modifies_state\<close> of its error call; for a statement made by the constructor this
  is the property of the call built from the raw statement's \<open>error_call\<close>. The error
  call is the only sub-expression the statement owns, so folding the property over the
  owned sub-expressions (with any operation that has a neutral element) gives the same
  value.
\<close>

theorem modifies_state_of_error_call:
  "fst (modifies_state f store (snd (read_all f store empty_cache oids)) oid) =
     f (error_call (store oid))
   \<and> (store oid = RevertStatement_init revert parent_ref \<longrightarrow>
        fst (modifies_state f store (snd (read_all f store empty_cache oids)) oid) =
          f (FunctionCall_init (revert_error_call revert) (revert_id revert)))
   \<and> owned_children (RevertStatementNode (store oid)) =
        map OtherNode (owned_expressions (store oid))
   \<and> (\<forall>join unit. (\<forall>v. join unit v = v) \<longrightarrow>
        foldl join unit (map f (owned_expressions (store oid))) =
          fst (modifies_state f store (snd (read_all f store empty_cache oids)) oid))"
  by (simp add: modifies_state_value owned_expressions_def RevertStatement_init_def)

theorem modifies_state_of_error_call_witness:
  "fst (modifies_state (\<lambda>n. {ir_id n})
         (\<lambda>_. RevertStatement_init
            \<lparr>revert_id = 1, revert_src = (0, 10), revert_documentation = None,
             revert_error_call = SolcNode 2 ''FunctionCall'' (7, 9) []\<rparr> 0)
         (snd (read_all (\<lambda>n. {ir_id n})
            (\<lambda>_. RevertStatement_init
               \<lparr>revert_id = 1, revert_src = (0, 10), revert_documentation = None,
                revert_error_call = SolcNode 2 ''FunctionCall'' (7, 9) []\<rparr> 0)
            empty_cache [])) 0) = {2::nat}
   \<and> foldl (\<union>) {}
        (map (\<lambda>n. {ir_id n})
          (owned_expressions
             (RevertStatement_init
                \<lparr>revert_id = 1, revert_src = (0, 10), revert_documentation = None,
                 revert_error_call = SolcNode 2 ''FunctionCall'' (7, 9) []\<rparr> 0))) = {2::nat}"
proof -
  let ?raw = "\<lparr>revert_id = 1, revert_src = (0, 10), revert_documentation = None,
             revert_error_call = SolcNode 2 ''FunctionCall'' (7, 9) []\<rparr>"
  let ?f = "\<lambda>n. {ir_id n}"
  let ?store = "\<lambda>_::nat. RevertStatement_init ?raw 0"
  let ?v = "fst (modifies_state ?f ?store (snd (read_all ?f ?store empty_cache [])) 0)"
  note th = modifies_state_of_error_call [of ?f ?store "[]" 0 ?raw 0]
  from th have "?store 0 = RevertStatement_init ?raw 0 \<longrightarrow>
      ?v = ?f (FunctionCall_init (revert_error_call ?raw) (revert_id ?raw))"
    by blast
  then have v: "?v = {2}" by simp
  from th have fo: "\<forall>join unit. (\<forall>v. join unit v = v) \<longrightarrow>
      foldl join unit (map ?f (owned_expressions (?store 0))) = ?v"
    by (elim conjE)
  have "foldl (\<union>) {} (map ?f (owned_expressions (?store 0))) = ?v"
    by (rule fo[rule_format]) simp
  with v show ?thesis by simp
qed


section \<open>Version manager: results\<close>

lemma install_other_root: "r' \<noteq> root \<Longrightarrow> snd (install cat root fs s) r' = fs r'"
  by (simp add: install_def split: sum.splits option.splits)

lemma remove_other_root: "r' \<noteq> root \<Longrightarrow> snd (remove root fs s) r' = fs r'"
  by (simp add: remove_def split: option.splits)

lemma list_available_other_root:
  "r' \<noteq> root \<Longrightarrow> snd (list_available cat root fs force) r' = fs r'"
  by (simp add: list_available_def split: option.splits)

lemma run_call_other_root: "r' \<noteq> root \<Longrightarrow> run_call cat root fs c r' = fs r'"
  by (cases c) (simp_all add: install_other_root remove_other_root list_available_other_root)

lemma run_calls_other_root: "r' \<noteq> root \<Longrightarrow> run_calls cat root fs cs r' = fs r'"
  by (induction cs arbitrary: fs) (simp_all add: run_call_other_root)

lemma list_installed_cong: "fs' r = fs r \<Longrightarrow> list_installed fs' r = list_installed fs r"
  by (simp add: list_installed_def)

lemma list_available_cong:
  "fs' r = fs r \<Longrightarrow> fst (list_available cat r fs' force) = fst (list_available cat r fs force)"
  by (simp add: list_available_def split: option.splits)

text \<open>
  C8. Spec-modelled. For two managers rooted at different install directories, no run of
  install, remove and list-available calls on the first changes anything under the
  second's root: the second's \<open>list_installed()\<close>, its cached available list and what
  its \<open>list_available\<close> returns are what they were before the run.
\<close>

theorem managers_isolated:
  "root1 \<noteq> root2 \<Longrightarrow>
   run_calls cat root1 fs calls root2 = fs root2
   \<and> list_installed (run_calls cat root1 fs calls) root2 = list_installed fs root2
   \<and> fst (list_available cat' root2 (run_calls cat root1 fs calls) force) =
       fst (list_available cat' root2 fs force)
   \<and> available_cache (run_calls cat root1 fs calls root2) = available_cache (fs root2)"
proof -
  assume ne: "root1 \<noteq> root2"
  then have eq: "run_calls cat root1 fs calls root2 = fs root2"
    by (simp add: run_calls_other_root)
  have a: "list_installed (run_calls cat root1 fs calls) root2 = list_installed fs root2"
    using eq by (rule list_installed_cong)
  have b: "fst (list_available cat' root2 (run_calls cat root1 fs calls) force) =
       fst (list_available cat' root2 fs force)"
    using eq by (rule list_available_cong)
  from eq a b show ?thesis by simp
qed

theorem managers_isolated_witness:
  "list_installed
     (run_calls example_catalog ''/home/u/.tmpwake'' empty_fs
        [ListAvailable True, Install ''0.8.10'', Install ''0.8.10'', Remove ''0.8.10''])
     ''/home/u/.tmpwake2'' = {}
   \<and> available_cache
        (run_calls example_catalog ''/home/u/.tmpwake'' empty_fs
           [ListAvailable True, Install ''0.8.10'', Install ''0.8.10'', Remove ''0.8.10'']
           ''/home/u/.tmpwake2'') = None"
proof -
  have ne: "''/home/u/.tmpwake'' \<noteq> ''/home/u/.tmpwake2''" by simp
  from managers_isolated [OF ne, of example_catalog empty_fs
      "[ListAvailable True, Install ''0.8.10'', Install ''0.8.10'', Remove ''0.8.10'']"]
  show ?thesis
    by (simp add: empty_fs_def list_installed_def)
qed

text \<open>
  C3. Spec-modelled. A version string that does not parse makes \<open>install\<close> and
  \<open>get_path\<close> fail with InvalidVersion; a version below the lowest or above the highest
  supported version makes them fail with UnsupportedVersion. In both cases \<open>install\<close>
  returns the file system it was given (\<open>get_path\<close> only reads it), so the installed
  set is unchanged.
\<close>

theorem install_range_enforced:
  "(parse_version s = None \<longrightarrow>
      install cat root fs s = (Inl InvalidVersion, fs)
      \<and> get_path cat root fs s = Inl InvalidVersion)
   \<and> (\<forall>v. parse_version s = Some v
          \<and> (version_less v (supported_min cat) \<or> version_less (supported_max cat) v) \<longrightarrow>
      install cat root fs s = (Inl UnsupportedVersion, fs)
      \<and> get_path cat root fs s = Inl UnsupportedVersion)"
  by (auto simp: install_def get_path_def check_version_def split: option.splits sum.splits)

theorem install_range_enforced_witness:
  "install example_catalog ''/home/u/.tmpwake'' empty_fs ''0.8.a'' = (Inl InvalidVersion, empty_fs)
   \<and> get_path example_catalog ''/home/u/.tmpwake'' empty_fs ''0.8.a'' = Inl InvalidVersion
   \<and> install example_catalog ''/home/u/.tmpwake'' empty_fs ''0.1.2''
        = (Inl UnsupportedVersion, empty_fs)
   \<and> get_path example_catalog ''/home/u/.tmpwake'' empty_fs ''0.1.2'' = Inl UnsupportedVersion
   \<and> install example_catalog ''/home/u/.tmpwake'' empty_fs ''0.9.0''
        = (Inl UnsupportedVersion, empty_fs)"
proof -
  have p1: "parse_version ''0.8.a'' = None" by code_simp
  have p2: "parse_version ''0.1.2'' = Some (0, 1, 2)" by code_simp
  have p3: "parse_version ''0.9.0'' = Some (0, 9, 0)" by code_simp
  have r2: "version_less (0, 1, 2) (supported_min example_catalog)"
    by (simp add: example_catalog_def)
  have r3: "version_less (supported_max example_catalog) (0, 9, 0)"
    by (simp add: example_catalog_def)
  note t1 = install_range_enforced [of "''0.8.a''" example_catalog "''/home/u/.tmpwake''" empty_fs]
  note t2 = install_range_enforced [of "''0.1.2''" example_catalog "''/home/u/.tmpwake''" empty_fs]
  note t3 = install_range_enforced [of "''0.9.0''" example_catalog "''/home/u/.tmpwake''" empty_fs]
  from t1 p1 have a: "install example_catalog ''/home/u/.tmpwake'' empty_fs ''0.8.a''
        = (Inl InvalidVersion, empty_fs)
      \<and> get_path example_catalog ''/home/u/.tmpwake'' empty_fs ''0.8.a'' = Inl InvalidVersion"
    by blast
  from t2 p2 r2 have b: "install example_catalog ''/home/u/.tmpwake'' empty_fs ''0.1.2''
        = (Inl UnsupportedVersion, empty_fs)
      \<and> get_path example_catalog ''/home/u/.tmpwake'' empty_fs ''0.1.2'' = Inl UnsupportedVersion"
    by blast
  from t3 p3 r3 have c: "install example_catalog ''/home/u/.tmpwake'' empty_fs ''0.9.0''
        = (Inl UnsupportedVersion, empty_fs)"
    by blast
  from a b c show ?thesis by blast
qed

lemma install_supported:
  assumes sup: "check_version cat s = Inr v" and dl: "download cat v = Some bytes"
  shows "fst (install cat root fs s) = Inr ()"
    and "list_installed (snd (install cat root fs s)) root = insert v (list_installed fs root)"
proof -
  show "fst (install cat root fs s) = Inr ()"
    using sup dl by (cases "v \<in> list_installed fs root") (simp_all add: install_def)
  show "list_installed (snd (install cat root fs s)) root = insert v (list_installed fs root)"
  proof (cases "v \<in> list_installed fs root")
    case True
    with sup show ?thesis by (auto simp: install_def)
  next
    case False
    with sup dl show ?thesis by (simp add: install_def list_installed_def)
  qed
qed

lemma install_installed:
  "check_version cat s = Inr v \<Longrightarrow> v \<in> list_installed fs root \<Longrightarrow>
   install cat root fs s = (Inr (), fs)"
  by (simp add: install_def)

lemma remove_installed:
  assumes pv: "parse_version s = Some v" and inst: "v \<in> list_installed fs root"
  shows "fst (remove root fs s) = Inr ()"
    and "list_installed (snd (remove root fs s)) root = list_installed fs root - {v}"
  using pv inst by (auto simp: remove_def list_installed_def)

text \<open>
  C2. Spec-modelled. For a supported version whose artifact the catalog serves: the
  first \<open>install\<close> succeeds and adds the version to the installed set; the second
  succeeds and leaves the file system as it is; \<open>remove\<close> then succeeds and takes the
  version out again. Starting from an empty install root, the installed set is the
  single version after the installs and empty after the removal. A \<open>get_path\<close> after
  that fails with NotInstalled, not with UnsupportedVersion.
\<close>

theorem install_twice_then_remove:
  assumes sup: "check_version cat s = Inr v" and dl: "download cat v = Some bytes"
  shows "fst (install cat root fs s) = Inr ()
   \<and> list_installed (snd (install cat root fs s)) root = insert v (list_installed fs root)
   \<and> install cat root (snd (install cat root fs s)) s = (Inr (), snd (install cat root fs s))
   \<and> fst (remove root (snd (install cat root fs s)) s) = Inr ()
   \<and> list_installed (snd (remove root (snd (install cat root fs s)) s)) root =
        list_installed fs root - {v}
   \<and> (list_installed fs root = {} \<longrightarrow>
        list_installed (snd (install cat root fs s)) root = {v}
        \<and> card (list_installed (snd (install cat root fs s)) root) = 1
        \<and> list_installed (snd (remove root (snd (install cat root fs s)) s)) root = {})
   \<and> get_path cat root (snd (remove root (snd (install cat root fs s)) s)) s = Inl NotInstalled
   \<and> get_path cat root (snd (remove root (snd (install cat root fs s)) s)) s
        \<noteq> Inl UnsupportedVersion"
proof -
  let ?fs1 = "snd (install cat root fs s)"
  let ?fs2 = "snd (remove root ?fs1 s)"
  from sup have pv: "parse_version s = Some v"
    by (auto simp: check_version_def split: option.splits if_splits)
  note i1 = install_supported[OF sup dl, of root fs]
  have mem: "v \<in> list_installed ?fs1 root" using i1(2) by simp
  have i2: "install cat root ?fs1 s = (Inr (), ?fs1)"
    using sup mem by (rule install_installed)
  note r = remove_installed[OF pv mem]
  have l2: "list_installed ?fs2 root = list_installed fs root - {v}"
    using r(2) i1(2) by simp
  have g: "get_path cat root ?fs2 s = Inl NotInstalled"
    using sup l2 by (simp add: get_path_def)
  from i1 i2 r(1) l2 g show ?thesis by simp
qed

theorem install_twice_then_remove_witness:
  "fst (install example_catalog ''/home/u/.tmpwake'' empty_fs ''0.8.10'') = Inr ()
   \<and> list_installed (snd (install example_catalog ''/home/u/.tmpwake'' empty_fs ''0.8.10''))
        ''/home/u/.tmpwake'' = {(0, 8, 10)}
   \<and> list_installed
        (snd (remove ''/home/u/.tmpwake''
               (snd (install example_catalog ''/home/u/.tmpwake'' empty_fs ''0.8.10'')) ''0.8.10''))
        ''/home/u/.tmpwake'' = {}
   \<and> get_path example_catalog ''/home/u/.tmpwake''
        (snd (remove ''/home/u/.tmpwake''
               (snd (install example_catalog ''/home/u/.tmpwake'' empty_fs ''0.8.10'')) ''0.8.10''))
        ''0.8.10'' = Inl NotInstalled"
proof -
  have sup: "check_version example_catalog ''0.8.10'' = Inr (0, 8, 10)" by code_simp
  have dl: "download example_catalog (0, 8, 10) = Some ''solc''"
    by (simp add: example_catalog_def)
  have e: "list_installed empty_fs ''/home/u/.tmpwake'' = {}"
    by (simp add: empty_fs_def list_installed_def)
  from install_twice_then_remove [OF sup dl, of "''/home/u/.tmpwake''" empty_fs] e
  show ?thesis by blast
qed



end
